theory Spec2Isabelle
  imports Main "HOL-Library.Sublist" "HOL-Library.AList" "HOL-Library.List_Lexorder"
    "HOL-Library.Char_ord" "HOL-Library.Multiset"
begin

section \<open>The file system as the program sees it\<close>

text \<open>
  \<^verbatim>\<open>project-initializer.ts\<close> talks to the disk through the synchronous calls of Node's
  \<^verbatim>\<open>fs\<close> module, always by path.  A path is the list of its components
  (\<^verbatim>\<open>path.join(p, 'x')\<close> is \<open>p @ [''x'']\<close>); the disk is a store from paths to nodes, kept
  as an association list whose order is the order of the entries on the disk: a new entry
  goes to the end, an overwritten file keeps its place.  Only regular
  files and directories are modelled (no symbolic links, no permissions); file contents
  and names are strings of 8-bit characters.  A call that throws leaves the disk as it
  was.
\<close>

type_synonym path = "string list"

datatype node = File string | Dir

type_synonym fs = "(path \<times> node) list"

datatype error = ENOENT | ENOTDIR | EISDIR | EEXIST

record dirent =
  name :: string
  isDirectory :: bool

definition existsSync :: "fs \<Rightarrow> path \<Rightarrow> bool" where
  "existsSync fs p = (map_of fs p \<noteq> None)"

text \<open>\<^verbatim>\<open>mkdirSync(p, { recursive: true })\<close>: every missing prefix of \<open>p\<close> is created, shortest
  first; a prefix that is a regular file makes the call throw.\<close>

fun mkdir_chain :: "fs \<Rightarrow> path list \<Rightarrow> error + fs" where
  "mkdir_chain fs [] = Inr fs"
| "mkdir_chain fs (p # ps) =
    (case map_of fs p of
       Some Dir \<Rightarrow> mkdir_chain fs ps
     | Some (File c) \<Rightarrow> Inl (if ps = [] then EEXIST else ENOTDIR)
     | None \<Rightarrow> mkdir_chain (AList.update p Dir fs) ps)"

definition mkdirSync :: "fs \<Rightarrow> path \<Rightarrow> error + fs" where
  "mkdirSync fs p = mkdir_chain fs (prefixes p)"

definition readFileSync :: "fs \<Rightarrow> path \<Rightarrow> error + string" where
  "readFileSync fs p =
    (case map_of fs p of
       None \<Rightarrow> Inl ENOENT
     | Some Dir \<Rightarrow> Inl EISDIR
     | Some (File c) \<Rightarrow> Inr c)"

text \<open>\<^verbatim>\<open>writeFileSync(p, c)\<close> creates or overwrites the file \<open>p\<close>; the parent must be a
  directory and \<open>p\<close> itself must not be one.\<close>

definition writeFileSync :: "fs \<Rightarrow> path \<Rightarrow> string \<Rightarrow> error + fs" where
  "writeFileSync fs p c =
    (case map_of fs p of
       Some Dir \<Rightarrow> Inl EISDIR
     | _ \<Rightarrow>
        (case map_of fs (butlast p) of
           None \<Rightarrow> Inl ENOENT
         | Some (File d) \<Rightarrow> Inl ENOTDIR
         | Some Dir \<Rightarrow> Inr (AList.update p (File c) fs)))"

definition copyFileSync :: "fs \<Rightarrow> path \<Rightarrow> path \<Rightarrow> error + fs" where
  "copyFileSync fs srcPath destPath =
    (case readFileSync fs srcPath of
       Inl e \<Rightarrow> Inl e
     | Inr c \<Rightarrow> writeFileSync fs destPath c)"

text \<open>
  The entries of a directory as \<^verbatim>\<open>readdirSync(p, { withFileTypes: true })\<close> returns them.
  On a POSIX system Node reads a directory through \<^verbatim>\<open>scandir\<close> of libuv, which collects the
  entries in the order of the disk and sorts them by the bytes of their names before it
  hands them over: the order of the disk does not reach the program.
\<close>

definition children :: "fs \<Rightarrow> path \<Rightarrow> dirent list" where
  "children fs p =
    sort_key name
      (map (\<lambda>q. \<lparr>name = last q, isDirectory = (map_of fs q = Some Dir)\<rparr>)
        (filter (\<lambda>q. q \<noteq> [] \<and> butlast q = p) (remdups (map fst fs))))"

definition readdirSync :: "fs \<Rightarrow> path \<Rightarrow> error + dirent list" where
  "readdirSync fs p =
    (case map_of fs p of
       None \<Rightarrow> Inl ENOENT
     | Some (File c) \<Rightarrow> Inl ENOTDIR
     | Some Dir \<Rightarrow> Inr (children fs p))"

section \<open>Exclusion and preservation policy\<close>

definition EXCLUDE_PATTERNS :: "string list" where
  "EXCLUDE_PATTERNS = [''__pycache__'', ''.DS_Store'', ''*.pyc'', ''.env'', ''specs'', ''.git'']"

definition PRESERVE_ON_UPDATE :: "string list" where
  "PRESERVE_ON_UPDATE = [''specs'', ''.env'']"

definition startsWith :: "string \<Rightarrow> string \<Rightarrow> bool" where
  "startsWith s pre = (take (length pre) s = pre)"

definition endsWith :: "string \<Rightarrow> string \<Rightarrow> bool" where
  "endsWith s ext = (length ext \<le> length s \<and> drop (length s - length ext) s = ext)"

text \<open>The loop of \<^verbatim>\<open>shouldExclude\<close> over the patterns, first match wins.\<close>

fun matchPatterns :: "string \<Rightarrow> string list \<Rightarrow> bool" where
  "matchPatterns nm [] = False"
| "matchPatterns nm (pattern # ps) =
    (if startsWith pattern ''*'' then
       (if endsWith nm (drop 1 pattern) then True else matchPatterns nm ps)
     else if nm = pattern then True
     else matchPatterns nm ps)"

definition shouldExclude :: "string \<Rightarrow> bool" where
  "shouldExclude nm = matchPatterns nm EXCLUDE_PATTERNS"

definition shouldPreserve :: "string \<Rightarrow> bool" where
  "shouldPreserve nm = (nm \<in> set PRESERVE_ON_UPDATE)"

lemma shouldExclude_iff:
  "shouldExclude nm \<longleftrightarrow>
     nm \<in> {''__pycache__'', ''.DS_Store'', ''.env'', ''specs'', ''.git''} \<or> endsWith nm ''.pyc''"
  by (auto simp add: shouldExclude_def EXCLUDE_PATTERNS_def startsWith_def)

lemma shouldPreserve_imp_shouldExclude: "shouldPreserve nm \<Longrightarrow> shouldExclude nm"
  by (auto simp add: shouldExclude_iff shouldPreserve_def PRESERVE_ON_UPDATE_def)

section \<open>Content hasher\<close>

text \<open>The decimal rendering of a length inside a template literal.\<close>

definition digit :: "nat \<Rightarrow> char" where
  "digit d = ''0123456789'' ! d"

function decimal :: "nat \<Rightarrow> string" where
  "decimal n = (if n < 10 then [digit n] else decimal (n div 10) @ [digit (n mod 10)])"
  by pat_completeness auto
termination
  by (relation "measure id") auto

declare decimal.simps [simp del]

text \<open>The loop body of \<^verbatim>\<open>processDirectory\<close> feeds the running hash one chunk after the
  other; an exception in one iteration ends the loop.  \<open>feed\<close> joins the chunks of the
  iterations in order, up to the first exception.\<close>

fun feed :: "(error + string) list \<Rightarrow> error + string" where
  "feed [] = Inr []"
| "feed (r # rs) =
    (case r of
       Inl e \<Rightarrow> Inl e
     | Inr s \<Rightarrow> (case feed rs of Inl e \<Rightarrow> Inl e | Inr t \<Rightarrow> Inr (s @ t)))"

text \<open>The length of the longest path of the disk: \<^verbatim>\<open>processDirectory\<close> only descends into
  entries that \<^verbatim>\<open>readdirSync\<close> has listed, so it ends.\<close>

definition max_depth :: "fs \<Rightarrow> nat" where
  "max_depth fs = foldr max (map (length \<circ> fst) fs) 0"

lemma max_depth_ge: "(p, v) \<in> set fs \<Longrightarrow> length p \<le> max_depth fs"
  by (induction fs) (auto simp add: max_depth_def)

lemma children_key: "e \<in> set (children fs p) \<Longrightarrow> p @ [name e] \<in> fst ` set fs"
  by (force simp add: children_def snoc_eq_iff_butlast)

lemma children_exist: "e \<in> set (children fs p) \<Longrightarrow> map_of fs (p @ [name e]) \<noteq> None"
  using children_key [of e fs p] by (simp add: map_of_eq_None_iff)

text \<open>
  \<^verbatim>\<open>processDirectory\<close> (the inner function of \<^verbatim>\<open>calculateDirectoryHash\<close>) returns the byte
  stream that the calls of \<^verbatim>\<open>hash.update\<close> accumulate.  The entries are sorted with
  \<^verbatim>\<open>Array.prototype.sort\<close>, which is stable, under \<^verbatim>\<open>a.name.localeCompare(b.name)\<close>.  The
  collation of the platform is not part of the repository: it is the parameter \<open>key\<close>,
  the collation key of a name, and \<^verbatim>\<open>localeCompare\<close> compares the keys of its arguments.
  Two different names may have the same key.
\<close>

function processDirectory :: "(string \<Rightarrow> 'k::linorder) \<Rightarrow> fs \<Rightarrow> path \<Rightarrow> error + string" where
  "processDirectory key fs currentPath =
    (if \<not> existsSync fs currentPath then Inr []
     else case readdirSync fs currentPath of
       Inl e \<Rightarrow> Inl e
     | Inr entries \<Rightarrow>
         feed (map (\<lambda>entry.
            if shouldExclude (name entry) then Inr []
            else if isDirectory entry then
              (case processDirectory key fs (currentPath @ [name entry]) of
                 Inl e \<Rightarrow> Inl e
               | Inr s \<Rightarrow> Inr (''dir:'' @ name entry @ s))
            else
              (case readFileSync fs (currentPath @ [name entry]) of
                 Inl e \<Rightarrow> Inl e
               | Inr content \<Rightarrow>
                   Inr (''file:'' @ name entry @ '':'' @ decimal (length content) @ content)))
          (sort_key (key \<circ> name) entries)))"
  by pat_completeness auto
termination
proof (relation "measure (\<lambda>(key, fs, p). Suc (max_depth fs) - length p)")
  show "wf (measure (\<lambda>(key, fs, p). Suc (max_depth fs) - length p))" by simp
next
  fix key :: "string \<Rightarrow> 'k::linorder" and fs currentPath and x2 :: "dirent list" and x
  assume rd: "readdirSync fs currentPath = Inr x2"
    and x: "x \<in> set (sort_key (key \<circ> name) x2)"
  from rd have "x2 = children fs currentPath"
    by (auto simp add: readdirSync_def split: option.splits node.splits)
  with x have "currentPath @ [name x] \<in> fst ` set fs"
    using children_key by simp
  then have "length (currentPath @ [name x]) \<le> max_depth fs"
    using max_depth_ge by fastforce
  then show "((key, fs, currentPath @ [name x]), (key, fs, currentPath))
       \<in> measure (\<lambda>(key, fs, p). Suc (max_depth fs) - length p)"
    by simp
qed

declare processDirectory.simps [simp del]

section \<open>Version metadata and the platform\<close>

record VersionMetadata =
  version :: string
  sourceHash :: string
  sourcePath :: path
  initializedAt :: string
  updatedAt :: string

text \<open>
  What the program takes from Node and is not in the repository: the collation behind
  \<^verbatim>\<open>localeCompare\<close>, SHA-256 with hexadecimal output, and \<^verbatim>\<open>JSON.stringify\<close> and
  \<^verbatim>\<open>JSON.parse\<close> on the sidecar.  \<open>json_parse\<close> is \<open>None\<close> where \<^verbatim>\<open>JSON.parse\<close> throws or
  yields a falsy value such as \<^verbatim>\<open>null\<close> (the code takes both for no metadata); a text that
  parses to anything else is taken to have the declared type \<^verbatim>\<open>VersionMetadata\<close>.  Both
  work on the bytes of the sidecar: writing a string as UTF-8 and reading it back are part
  of them.
\<close>

record 'k runtime =
  localeKey :: "string \<Rightarrow> 'k"
  sha256_hex :: "string \<Rightarrow> string"
  json_stringify :: "VersionMetadata \<Rightarrow> string"
  json_parse :: "string \<Rightarrow> VersionMetadata option"

text \<open>\<^verbatim>\<open>hash.digest('hex').slice(0, 16)\<close> of the stream.\<close>

definition calculateDirectoryHash :: "('k::linorder) runtime \<Rightarrow> fs \<Rightarrow> path \<Rightarrow> error + string" where
  "calculateDirectoryHash rt fs dirPath =
    (case processDirectory (localeKey rt) fs dirPath of
       Inl e \<Rightarrow> Inl e
     | Inr stream \<Rightarrow> Inr (take 16 (sha256_hex rt stream)))"

text \<open>
  The model keeps a text as its UTF-8 bytes.  \<^verbatim>\<open>readFileSync(p, 'utf-8')\<close> decodes the bytes
  of a file: a sequence that is well-formed UTF-8 gives its character, and every maximal
  part of an ill-formed sequence gives U+FFFD, the replacement character (a byte order
  mark is kept).  \<open>decodeUTF8\<close> is the UTF-8 form of the string that comes out: ill-formed
  parts are replaced by the three bytes of U+FFFD, everything else stays.  The bounds of
  the second byte after each lead byte are those of table 3-7 of the Unicode standard.
\<close>

definition replacement :: string where
  "replacement = [CHR 0xEF, CHR 0xBF, CHR 0xBD]"

definition bytesNeeded :: "char \<Rightarrow> nat" where
  "bytesNeeded a =
    (let n = (of_char a :: nat) in
     if 0xC2 \<le> n \<and> n \<le> 0xDF then 1
     else if 0xE0 \<le> n \<and> n \<le> 0xEF then 2
     else if 0xF0 \<le> n \<and> n \<le> 0xF4 then 3
     else 0)"

definition secondByte :: "char \<Rightarrow> char \<Rightarrow> bool" where
  "secondByte a b =
    ((if a = CHR 0xE0 then 0xA0 else if a = CHR 0xF0 then 0x90 else 0x80) \<le> (of_char b :: nat) \<and>
     (of_char b :: nat) \<le> (if a = CHR 0xED then 0x9F else if a = CHR 0xF4 then 0x8F else 0xBF))"

definition continuation :: "char \<Rightarrow> bool" where
  "continuation c = (0x80 \<le> (of_char c :: nat) \<and> (of_char c :: nat) \<le> 0xBF)"

fun decodeUTF8 :: "string \<Rightarrow> string" where
  "decodeUTF8 [] = []"
| "decodeUTF8 (a # s) =
    (if (of_char a :: nat) < 0x80 then a # decodeUTF8 s
     else if bytesNeeded a = 0 then replacement @ decodeUTF8 s
     else
       (case s of
          [] \<Rightarrow> replacement
        | b # r \<Rightarrow>
            if \<not> secondByte a b then replacement @ decodeUTF8 s
            else if bytesNeeded a = 1 then a # b # decodeUTF8 r
            else
              (case r of
                 [] \<Rightarrow> replacement
               | c # t \<Rightarrow>
                   if \<not> continuation c then replacement @ decodeUTF8 r
                   else if bytesNeeded a = 2 then a # b # c # decodeUTF8 t
                   else
                     (case t of
                        [] \<Rightarrow> replacement
                      | d # u \<Rightarrow>
                          if \<not> continuation d then replacement @ decodeUTF8 t
                          else a # b # c # d # decodeUTF8 u))))"

text \<open>Well-formed UTF-8, after the same table: the texts that decoding leaves as they
  are.\<close>

fun wellFormedUTF8 :: "string \<Rightarrow> bool" where
  "wellFormedUTF8 [] = True"
| "wellFormedUTF8 (a # s) =
    (if (of_char a :: nat) < 0x80 then wellFormedUTF8 s
     else if bytesNeeded a = 0 then False
     else
       (case s of
          [] \<Rightarrow> False
        | b # r \<Rightarrow>
            secondByte a b \<and>
            (if bytesNeeded a = 1 then wellFormedUTF8 r
             else
               (case r of
                  [] \<Rightarrow> False
                | c # t \<Rightarrow>
                    continuation c \<and>
                    (if bytesNeeded a = 2 then wellFormedUTF8 t
                     else
                       (case t of
                          [] \<Rightarrow> False
                        | d # u \<Rightarrow> continuation d \<and> wellFormedUTF8 u))))))"

text \<open>
  \<^verbatim>\<open>String.prototype.trim\<close> removes from both ends of a string every code point that
  ECMAScript counts as white space or as a line terminator: U+0009 to U+000D, U+0020,
  U+00A0, U+1680, U+2000 to U+200A, U+2028, U+2029, U+202F, U+205F, U+3000 and U+FEFF.
  \<open>whiteSpace\<close> lists their UTF-8 encodings.  In well-formed UTF-8 no encoding is the
  beginning or the end of another character, so a text starts (ends) with white space
  exactly when one of the encodings is a prefix (suffix) of its bytes.
\<close>

definition whiteSpace :: "string list" where
  "whiteSpace =
    [[CHR 0x09], [CHR 0x0A], [CHR 0x0B], [CHR 0x0C], [CHR 0x0D], [CHR 0x20],
     [CHR 0xC2, CHR 0xA0], [CHR 0xE1, CHR 0x9A, CHR 0x80],
     [CHR 0xE2, CHR 0x80, CHR 0x80], [CHR 0xE2, CHR 0x80, CHR 0x81],
     [CHR 0xE2, CHR 0x80, CHR 0x82], [CHR 0xE2, CHR 0x80, CHR 0x83],
     [CHR 0xE2, CHR 0x80, CHR 0x84], [CHR 0xE2, CHR 0x80, CHR 0x85],
     [CHR 0xE2, CHR 0x80, CHR 0x86], [CHR 0xE2, CHR 0x80, CHR 0x87],
     [CHR 0xE2, CHR 0x80, CHR 0x88], [CHR 0xE2, CHR 0x80, CHR 0x89],
     [CHR 0xE2, CHR 0x80, CHR 0x8A], [CHR 0xE2, CHR 0x80, CHR 0xA8],
     [CHR 0xE2, CHR 0x80, CHR 0xA9], [CHR 0xE2, CHR 0x80, CHR 0xAF],
     [CHR 0xE2, CHR 0x81, CHR 0x9F], [CHR 0xE3, CHR 0x80, CHR 0x80],
     [CHR 0xEF, CHR 0xBB, CHR 0xBF]]"

lemma whiteSpace_nonempty: "w \<in> set whiteSpace \<Longrightarrow> w \<noteq> []"
  by (auto simp add: whiteSpace_def)

lemma find_whiteSpace:
  assumes "find P whiteSpace = Some w"
  shows "P w" and "w \<in> set whiteSpace" and "w \<noteq> []"
proof -
  from assms show "P w" "w \<in> set whiteSpace" by (auto simp add: find_Some_iff)
  then show "w \<noteq> []" by (simp add: whiteSpace_nonempty)
qed

function trimStart :: "string \<Rightarrow> string" where
  "trimStart s =
    (case find (\<lambda>w. prefix w s) whiteSpace of
       None \<Rightarrow> s
     | Some w \<Rightarrow> trimStart (drop (length w) s))"
  by pat_completeness auto
termination
proof (relation "measure length")
  show "wf (measure length)" by simp
next
  fix s w assume "find (\<lambda>w. prefix w s) whiteSpace = Some w"
  from find_whiteSpace [OF this] have "prefix w s" "w \<noteq> []" by simp_all
  then show "(drop (length w) s, s) \<in> measure length"
    by (auto simp add: prefix_def)
qed

function trimEnd :: "string \<Rightarrow> string" where
  "trimEnd s =
    (case find (\<lambda>w. suffix w s) whiteSpace of
       None \<Rightarrow> s
     | Some w \<Rightarrow> trimEnd (take (length s - length w) s))"
  by pat_completeness auto
termination
proof (relation "measure length")
  show "wf (measure length)" by simp
next
  fix s w assume "find (\<lambda>w. suffix w s) whiteSpace = Some w"
  from find_whiteSpace [OF this] have "suffix w s" "w \<noteq> []" by simp_all
  then show "(take (length s - length w) s, s) \<in> measure length"
    by (auto simp add: suffix_def)
qed

declare trimStart.simps [simp del] trimEnd.simps [simp del]

definition trim :: "string \<Rightarrow> string" where
  "trim s = trimEnd (trimStart s)"

definition readSourceVersion :: "fs \<Rightarrow> path \<Rightarrow> error + string" where
  "readSourceVersion fs source =
    (let versionFile = source @ [''VERSION''] in
     if existsSync fs versionFile then
       (case readFileSync fs versionFile of
          Inl e \<Rightarrow> Inl e
        | Inr text \<Rightarrow> Inr (trim (decodeUTF8 text)))
     else Inr ''0.0.0'')"

definition readVersionMetadata :: "'k runtime \<Rightarrow> fs \<Rightarrow> path \<Rightarrow> VersionMetadata option" where
  "readVersionMetadata rt fs autoBuildPath =
    (let metadataPath = autoBuildPath @ [''.version.json''] in
     if existsSync fs metadataPath then
       (case readFileSync fs metadataPath of
          Inl e \<Rightarrow> None
        | Inr text \<Rightarrow> json_parse rt text)
     else None)"

definition writeVersionMetadata :: "'k runtime \<Rightarrow> fs \<Rightarrow> path \<Rightarrow> VersionMetadata \<Rightarrow> error + fs" where
  "writeVersionMetadata rt fs autoBuildPath metadata =
    writeFileSync fs (autoBuildPath @ [''.version.json'']) (json_stringify rt metadata)"

section \<open>Tree synchronizer\<close>

text \<open>
  \<^verbatim>\<open>copyDirectoryRecursive\<close> reads the disk again at every level, and source and
  destination are paths into the same disk, so the recursion is not structural: when the
  destination lies inside the source it goes on until the platform gives up.  The first
  argument bounds the depth of the recursion; \<open>None\<close> is the run that needs more.  A run
  that ends gives the disk it leaves and the exception it throws, if any: what was copied
  before the exception stays.
\<close>

function (sequential) copyDirectoryRecursive :: "nat \<Rightarrow> path \<Rightarrow> path \<Rightarrow> bool \<Rightarrow> fs \<Rightarrow> (fs \<times> error option) option"
  and copyEntries :: "nat \<Rightarrow> path \<Rightarrow> path \<Rightarrow> bool \<Rightarrow> dirent list \<Rightarrow> fs \<Rightarrow> (fs \<times> error option) option"
where
  "copyDirectoryRecursive 0 src dest isUpdate fs = None"
| "copyDirectoryRecursive (Suc n) src dest isUpdate fs =
    (case (if \<not> existsSync fs dest then mkdirSync fs dest else Inr fs) of
       Inl e \<Rightarrow> Some (fs, Some e)
     | Inr fs1 \<Rightarrow>
        (case readdirSync fs1 src of
           Inl e \<Rightarrow> Some (fs1, Some e)
         | Inr entries \<Rightarrow> copyEntries n src dest isUpdate entries fs1))"
| "copyEntries n src dest isUpdate [] fs = Some (fs, None)"
| "copyEntries n src dest isUpdate (entry # entries) fs =
    (let srcPath = src @ [name entry]; destPath = dest @ [name entry] in
     if shouldExclude (name entry) then copyEntries n src dest isUpdate entries fs
     else if isUpdate \<and> shouldPreserve (name entry) \<and> existsSync fs destPath then
       copyEntries n src dest isUpdate entries fs
     else if isDirectory entry then
       (case copyDirectoryRecursive n srcPath destPath isUpdate fs of
          None \<Rightarrow> None
        | Some (fs1, Some e) \<Rightarrow> Some (fs1, Some e)
        | Some (fs1, None) \<Rightarrow> copyEntries n src dest isUpdate entries fs1)
     else
       (case copyFileSync fs srcPath destPath of
          Inl e \<Rightarrow> Some (fs, Some e)
        | Inr fs1 \<Rightarrow> copyEntries n src dest isUpdate entries fs1))"
  by pat_completeness auto
termination
  by (relation "inv_image (less_than <*lex*> less_than)
        (\<lambda>x. case x of Inl (n, src, dest, u, fs) \<Rightarrow> (2 * n, 0)
                | Inr (n, src, dest, u, es, fs) \<Rightarrow> (2 * n + 1, length es))") auto

section \<open>Version resolver\<close>

record VersionCheckResult =
  isInitialized :: bool
  currentVersion :: "string option"
  sourceVersion :: "string option"
  updateAvailable :: bool
  sourcePath :: "path option"

text \<open>Lines 290 to 307 of \<^verbatim>\<open>checkVersion\<close>: the retroactive metadata of an installed folder
  that has none, written at once.  \<open>now\<close> is the reading of the clock.\<close>

definition retroactiveMetadata ::
  "('k::linorder) runtime \<Rightarrow> string \<Rightarrow> path \<Rightarrow> path \<Rightarrow> fs \<Rightarrow> fs \<times> (error + VersionMetadata)" where
  "retroactiveMetadata rt now installedPath source fs =
    (case readSourceVersion fs source of
       Inl e \<Rightarrow> (fs, Inl e)
     | Inr srcVersion \<Rightarrow>
        (case calculateDirectoryHash rt fs installedPath of
           Inl e \<Rightarrow> (fs, Inl e)
         | Inr installedHash \<Rightarrow>
            (let metadata = \<lparr>version = srcVersion, sourceHash = installedHash,
                   VersionMetadata.sourcePath = source, initializedAt = now, updatedAt = now\<rparr> in
             case writeVersionMetadata rt fs installedPath metadata of
               Inl e \<Rightarrow> (fs, Inl e)
             | Inr fs1 \<Rightarrow> (fs1, Inr metadata))))"

text \<open>\<^verbatim>\<open>checkVersion\<close> has no handler: an exception of a call it makes leaves it, with the
  disk as it is then.\<close>

definition checkVersion ::
  "('k::linorder) runtime \<Rightarrow> string \<Rightarrow> path \<Rightarrow> path \<Rightarrow> fs \<Rightarrow> fs \<times> (error + VersionCheckResult)" where
  "checkVersion rt now projectPath source fs =
    (let dotAutoBuildPath = projectPath @ [''.auto-claude''] in
     if \<not> existsSync fs dotAutoBuildPath then
       (fs, Inr \<lparr>isInitialized = False, currentVersion = None, sourceVersion = None,
                 updateAvailable = False, sourcePath = None\<rparr>)
     else
       (let installedPath = dotAutoBuildPath in
        case (case readVersionMetadata rt fs installedPath of
                Some m \<Rightarrow> (fs, Inr (Some m))
              | None \<Rightarrow>
                  if existsSync fs source then
                    (case retroactiveMetadata rt now installedPath source fs of
                       (fs1, Inl e) \<Rightarrow> (fs1, Inl e)
                     | (fs1, Inr m) \<Rightarrow> (fs1, Inr (Some m)))
                  else (fs, Inr None)) of
          (fs1, Inl e) \<Rightarrow> (fs1, Inl e)
        | (fs1, Inr None) \<Rightarrow>
            (fs1, Inr \<lparr>isInitialized = True, currentVersion = None, sourceVersion = None,
                       updateAvailable = False, sourcePath = Some installedPath\<rparr>)
        | (fs1, Inr (Some metadata)) \<Rightarrow>
            if \<not> existsSync fs1 source then
              (fs1, Inr \<lparr>isInitialized = True, currentVersion = Some (version metadata),
                         sourceVersion = None, updateAvailable = False,
                         sourcePath = Some installedPath\<rparr>)
            else
              (case readSourceVersion fs1 source of
                 Inl e \<Rightarrow> (fs1, Inl e)
               | Inr srcVersion \<Rightarrow>
                  (case calculateDirectoryHash rt fs1 source of
                     Inl e \<Rightarrow> (fs1, Inl e)
                   | Inr srcHash \<Rightarrow>
                      (let hashDiffers = (sourceHash metadata \<noteq> srcHash);
                           versionDiffers = (version metadata \<noteq> srcVersion);
                           updateAvail = (hashDiffers \<and> versionDiffers) in
                       (fs1, Inr \<lparr>isInitialized = True, currentVersion = Some (version metadata),
                                  sourceVersion = Some srcVersion, updateAvailable = updateAvail,
                                  sourcePath = Some installedPath\<rparr>))))))"

section \<open>Lifecycle operations\<close>

text \<open>The \<^verbatim>\<open>error\<close> string of a result: the three fixed messages of the source (two of them
  carry a path) and the message of a caught exception.\<close>

datatype message =
  SourceNotFound path
  | ProjectNotFound path
  | AlreadyInitialized
  | NothingToUpdate
  | Thrown error

record InitializationResult =
  success :: bool
  error :: "message option"
  version :: "string option"
  wasUpdate :: "bool option"

definition failure :: "message \<Rightarrow> InitializationResult" where
  "failure msg = \<lparr>success = False, error = Some msg, version = None, wasUpdate = None\<rparr>"

text \<open>One of the three blocks of \<^verbatim>\<open>initializeProject\<close> that create a data directory (lines
  402 to 424): the directory is made when it is missing, and the marker file is written
  after the conditional.\<close>

definition ensureDataDirectory :: "fs \<Rightarrow> path \<Rightarrow> error + fs" where
  "ensureDataDirectory fs dir =
    (case (if \<not> existsSync fs dir then mkdirSync fs dir else Inr fs) of
       Inl e \<Rightarrow> Inl e
     | Inr fs1 \<Rightarrow>
        (case writeFileSync fs1 (dir @ [''.gitkeep'']) [] of
           Inl e \<Rightarrow> Inl e
         | Inr fs2 \<Rightarrow> Inr fs2))"

text \<open>The body of the \<^verbatim>\<open>try\<close> of \<^verbatim>\<open>initializeProject\<close> after the copy (lines 402 to 446):
  the disk it leaves, and the exception or the version it returns.\<close>

definition scaffold ::
  "('k::linorder) runtime \<Rightarrow> string \<Rightarrow> path \<Rightarrow> path \<Rightarrow> fs \<Rightarrow> fs \<times> (error + string)" where
  "scaffold rt now source dotAutoBuildPath fs =
    (case ensureDataDirectory fs (dotAutoBuildPath @ [''specs'']) of
       Inl e \<Rightarrow> (fs, Inl e)
     | Inr fs1 \<Rightarrow>
    (case ensureDataDirectory fs1 (dotAutoBuildPath @ [''roadmap'']) of
       Inl e \<Rightarrow> (fs1, Inl e)
     | Inr fs2 \<Rightarrow>
    (case ensureDataDirectory fs2 (dotAutoBuildPath @ [''ideation'']) of
       Inl e \<Rightarrow> (fs2, Inl e)
     | Inr fs3 \<Rightarrow>
    (let envExamplePath = dotAutoBuildPath @ [''.env.example''];
         envPath = dotAutoBuildPath @ [''.env''] in
     case (if existsSync fs3 envExamplePath \<and> \<not> existsSync fs3 envPath
           then copyFileSync fs3 envExamplePath envPath else Inr fs3) of
       Inl e \<Rightarrow> (fs3, Inl e)
     | Inr fs4 \<Rightarrow>
    (case readSourceVersion fs4 source of
       Inl e \<Rightarrow> (fs4, Inl e)
     | Inr srcVersion \<Rightarrow>
    (case calculateDirectoryHash rt fs4 source of
       Inl e \<Rightarrow> (fs4, Inl e)
     | Inr srcHash \<Rightarrow>
    (case writeVersionMetadata rt fs4 dotAutoBuildPath
            \<lparr>VersionMetadata.version = srcVersion, sourceHash = srcHash,
             VersionMetadata.sourcePath = source, initializedAt = now, updatedAt = now\<rparr> of
       Inl e \<Rightarrow> (fs4, Inl e)
     | Inr fs5 \<Rightarrow> (fs5, Inr srcVersion))))))))"

text \<open>\<^verbatim>\<open>initializeProject\<close>: the result and the disk it leaves; \<open>None\<close> when the copy needs
  more than \<open>fuel\<close> levels.\<close>

definition initializeProject ::
  "nat \<Rightarrow> ('k::linorder) runtime \<Rightarrow> string \<Rightarrow> path \<Rightarrow> path \<Rightarrow> fs \<Rightarrow> (fs \<times> InitializationResult) option" where
  "initializeProject fuel rt now projectPath source fs =
    (if \<not> existsSync fs source then Some (fs, failure (SourceNotFound source))
     else if \<not> existsSync fs projectPath then Some (fs, failure (ProjectNotFound projectPath))
     else
       (let dotAutoBuildPath = projectPath @ [''.auto-claude''];
            dotExists = existsSync fs dotAutoBuildPath in
        if dotExists then Some (fs, failure AlreadyInitialized)
        else
          (case copyDirectoryRecursive fuel source dotAutoBuildPath False fs of
             None \<Rightarrow> None
           | Some (fs1, Some e) \<Rightarrow> Some (fs1, failure (Thrown e))
           | Some (fs1, None) \<Rightarrow>
              (case scaffold rt now source dotAutoBuildPath fs1 of
                 (fs2, Inl e) \<Rightarrow> Some (fs2, failure (Thrown e))
               | (fs2, Inr v) \<Rightarrow>
                   Some (fs2, \<lparr>success = True, error = None, version = Some v,
                               wasUpdate = Some False\<rparr>)))))"

text \<open>\<^verbatim>\<open>existingMetadata?.initializedAt || now\<close>: the empty string is falsy.\<close>

definition carriedInitializedAt :: "VersionMetadata option \<Rightarrow> string \<Rightarrow> string" where
  "carriedInitializedAt existingMetadata now =
    (case existingMetadata of
       None \<Rightarrow> now
     | Some m \<Rightarrow> if initializedAt m = [] then now else initializedAt m)"

text \<open>The body of the \<^verbatim>\<open>try\<close> of \<^verbatim>\<open>updateProject\<close> after the copy (lines 500 to 512).\<close>

definition refreshMetadata ::
  "('k::linorder) runtime \<Rightarrow> string \<Rightarrow> path \<Rightarrow> path \<Rightarrow> fs \<Rightarrow> fs \<times> (error + string)" where
  "refreshMetadata rt now source targetPath fs =
    (case readSourceVersion fs source of
       Inl e \<Rightarrow> (fs, Inl e)
     | Inr srcVersion \<Rightarrow>
    (case calculateDirectoryHash rt fs source of
       Inl e \<Rightarrow> (fs, Inl e)
     | Inr srcHash \<Rightarrow>
    (let existingMetadata = readVersionMetadata rt fs targetPath in
     case writeVersionMetadata rt fs targetPath
            \<lparr>VersionMetadata.version = srcVersion, sourceHash = srcHash,
             VersionMetadata.sourcePath = source,
             initializedAt = carriedInitializedAt existingMetadata now, updatedAt = now\<rparr> of
       Inl e \<Rightarrow> (fs, Inl e)
     | Inr fs1 \<Rightarrow> (fs1, Inr srcVersion))))"

definition updateProject ::
  "nat \<Rightarrow> ('k::linorder) runtime \<Rightarrow> string \<Rightarrow> path \<Rightarrow> path \<Rightarrow> fs \<Rightarrow> (fs \<times> InitializationResult) option" where
  "updateProject fuel rt now projectPath source fs =
    (if \<not> existsSync fs source then Some (fs, failure (SourceNotFound source))
     else
       (let dotAutoBuildPath = projectPath @ [''.auto-claude''] in
        if \<not> existsSync fs dotAutoBuildPath then Some (fs, failure NothingToUpdate)
        else
          (let targetPath = dotAutoBuildPath in
           case copyDirectoryRecursive fuel source targetPath True fs of
             None \<Rightarrow> None
           | Some (fs1, Some e) \<Rightarrow> Some (fs1, failure (Thrown e))
           | Some (fs1, None) \<Rightarrow>
              (case refreshMetadata rt now source targetPath fs1 of
                 (fs2, Inl e) \<Rightarrow> Some (fs2, failure (Thrown e))
               | (fs2, Inr v) \<Rightarrow>
                   Some (fs2, \<lparr>success = True, error = None, version = Some v,
                               wasUpdate = Some True\<rparr>)))))"

section \<open>What the file system calls change\<close>

lemma map_of_mkdir_chain:
  "mkdir_chain fs ps = Inr fs' \<Longrightarrow>
     map_of fs' q = (if map_of fs q = None \<and> q \<in> set ps then Some Dir else map_of fs q)"
proof (induction ps arbitrary: fs)
  case Nil
  then show ?case by simp
next
  case (Cons p ps)
  show ?case
  proof (cases "map_of fs p")
    case None
    with Cons.prems have "mkdir_chain (AList.update p Dir fs) ps = Inr fs'" by simp
    from Cons.IH [OF this] None show ?thesis by (auto simp add: update_conv')
  next
    case (Some v)
    with Cons.prems obtain "v = Dir" and "mkdir_chain fs ps = Inr fs'"
      by (cases v) auto
    with Cons.IH [of fs] Some show ?thesis by auto
  qed
qed

lemma map_of_mkdirSync:
  "mkdirSync fs p = Inr fs' \<Longrightarrow>
     map_of fs' q = (if map_of fs q = None \<and> prefix q p then Some Dir else map_of fs q)"
  by (simp add: mkdirSync_def map_of_mkdir_chain in_set_prefixes)

lemma map_of_writeFileSync:
  "writeFileSync fs p c = Inr fs' \<Longrightarrow> map_of fs' = (map_of fs)(p \<mapsto> File c)"
  by (auto simp add: writeFileSync_def update_conv' split: option.splits node.splits)

lemma writeFileSync_parent:
  "writeFileSync fs p c = Inr fs' \<Longrightarrow> map_of fs (butlast p) = Some Dir \<and> map_of fs p \<noteq> Some Dir"
  by (auto simp add: writeFileSync_def split: option.splits node.splits)

lemma map_of_copyFileSync:
  "copyFileSync fs s d = Inr fs' \<Longrightarrow>
     \<exists>c. map_of fs s = Some (File c) \<and> map_of fs' = (map_of fs)(d \<mapsto> File c)"
  by (auto simp add: copyFileSync_def readFileSync_def map_of_writeFileSync
      split: option.splits node.splits sum.splits)

text \<open>The paths a copy into \<open>dest\<close> may create or overwrite: missing prefixes of \<open>dest\<close>, and
  \<open>dest\<close> followed by names that are not excluded.\<close>

definition written :: "path \<Rightarrow> fs \<Rightarrow> path \<Rightarrow> bool" where
  "written dest fs q \<longleftrightarrow>
     (prefix q dest \<and> map_of fs q = None) \<or>
     (\<exists>rel. rel \<noteq> [] \<and> q = dest @ rel \<and> (\<forall>c\<in>set rel. \<not> shouldExclude c))"

lemma written_child:
  assumes "written (dest @ [nm]) fs q" and "\<not> shouldExclude nm" and "map_of fs' q \<noteq> map_of fs q"
  shows "written dest fs q"
proof -
  from assms(1) consider "prefix q (dest @ [nm])" "map_of fs q = None"
    | rel where "rel \<noteq> []" "q = (dest @ [nm]) @ rel" "\<forall>c\<in>set rel. \<not> shouldExclude c"
    by (auto simp add: written_def)
  then show ?thesis
  proof cases
    case 1
    then show ?thesis
      using assms(2) by (cases "q = dest @ [nm]") (auto simp add: written_def)
  next
    case 2
    then have "q = dest @ (nm # rel)" "\<forall>c\<in>set (nm # rel). \<not> shouldExclude c"
      using assms(2) by auto
    then show ?thesis unfolding written_def by blast
  qed
qed

text \<open>The entries that the loop of \<^verbatim>\<open>copyDirectoryRecursive\<close> passes over.\<close>

definition skipped :: "bool \<Rightarrow> path \<Rightarrow> fs \<Rightarrow> dirent \<Rightarrow> bool" where
  "skipped isUpdate dest fs entry \<longleftrightarrow>
     shouldExclude (name entry) \<or>
     (isUpdate \<and> shouldPreserve (name entry) \<and> existsSync fs (dest @ [name entry]))"

lemma copyEntries_ConsE:
  assumes "copyEntries n src dest u (entry # entries) fs = Some (fs', r)"
  obtains
    (skip) "skipped u dest fs entry" "copyEntries n src dest u entries fs = Some (fs', r)"
  | (dir_throws) e where "\<not> skipped u dest fs entry" "isDirectory entry"
      "copyDirectoryRecursive n (src @ [name entry]) (dest @ [name entry]) u fs = Some (fs', Some e)"
      "r = Some e"
  | (dir_done) fs1 where "\<not> skipped u dest fs entry" "isDirectory entry"
      "copyDirectoryRecursive n (src @ [name entry]) (dest @ [name entry]) u fs = Some (fs1, None)"
      "copyEntries n src dest u entries fs1 = Some (fs', r)"
  | (file_throws) e where "\<not> skipped u dest fs entry" "\<not> isDirectory entry"
      "copyFileSync fs (src @ [name entry]) (dest @ [name entry]) = Inl e" "fs' = fs" "r = Some e"
  | (file_done) fs1 where "\<not> skipped u dest fs entry" "\<not> isDirectory entry"
      "copyFileSync fs (src @ [name entry]) (dest @ [name entry]) = Inr fs1"
      "copyEntries n src dest u entries fs1 = Some (fs', r)"
proof (cases "skipped u dest fs entry")
  case True
  with assms have "copyEntries n src dest u entries fs = Some (fs', r)"
    by (auto simp add: skipped_def Let_def split: if_splits)
  with True show ?thesis by (rule skip)
next
  case ns: False
  then have c: "\<not> shouldExclude (name entry)"
    "\<not> (u \<and> shouldPreserve (name entry) \<and> existsSync fs (dest @ [name entry]))"
    by (auto simp add: skipped_def)
  show ?thesis
  proof (cases "isDirectory entry")
    case True
    with assms c have *: "(case copyDirectoryRecursive n (src @ [name entry]) (dest @ [name entry]) u fs of
          None \<Rightarrow> None
        | Some (fs1, Some e) \<Rightarrow> Some (fs1, Some e)
        | Some (fs1, None) \<Rightarrow> copyEntries n src dest u entries fs1) = Some (fs', r)"
      by (simp add: Let_def)
    then obtain fs1 r1 where
      sub: "copyDirectoryRecursive n (src @ [name entry]) (dest @ [name entry]) u fs = Some (fs1, r1)"
      by (cases "copyDirectoryRecursive n (src @ [name entry]) (dest @ [name entry]) u fs") auto
    show ?thesis
    proof (cases r1)
      case None
      with * sub have "copyEntries n src dest u entries fs1 = Some (fs', r)" by simp
      with ns True sub None show ?thesis by (auto intro: dir_done)
    next
      case (Some e)
      with * sub have "fs' = fs1" "r = Some e" by simp_all
      with ns True sub Some show ?thesis by (auto intro: dir_throws)
    qed
  next
    case False
    with assms c have *: "(case copyFileSync fs (src @ [name entry]) (dest @ [name entry]) of
          Inl e \<Rightarrow> Some (fs, Some e)
        | Inr fs1 \<Rightarrow> copyEntries n src dest u entries fs1) = Some (fs', r)"
      by (simp add: Let_def)
    show ?thesis
    proof (cases "copyFileSync fs (src @ [name entry]) (dest @ [name entry])")
      case (Inl e)
      with * have "fs' = fs" "r = Some e" by simp_all
      with ns False Inl show ?thesis by (auto intro: file_throws)
    next
      case (Inr fs1)
      with * have "copyEntries n src dest u entries fs1 = Some (fs', r)" by simp
      with ns False Inr show ?thesis by (auto intro: file_done)
    qed
  qed
qed

lemma copyDirectoryRecursive_SucE:
  assumes "copyDirectoryRecursive (Suc n) src dest u fs = Some (fs', r)"
  obtains
    (mkdir_throws) e where "\<not> existsSync fs dest" "mkdirSync fs dest = Inl e" "fs' = fs" "r = Some e"
  | (readdir_throws) fs1 e where
      "(if \<not> existsSync fs dest then mkdirSync fs dest else Inr fs) = Inr fs1"
      "readdirSync fs1 src = Inl e" "fs' = fs1" "r = Some e"
  | (entries) fs1 where
      "(if \<not> existsSync fs dest then mkdirSync fs dest else Inr fs) = Inr fs1"
      "readdirSync fs1 src = Inr (children fs1 src)"
      "copyEntries n src dest u (children fs1 src) fs1 = Some (fs', r)"
proof (cases "if \<not> existsSync fs dest then mkdirSync fs dest else Inr fs")
  case (Inl e)
  with assms show ?thesis by (auto intro: mkdir_throws split: if_splits)
next
  case (Inr fs1)
  show ?thesis
  proof (cases "readdirSync fs1 src")
    case (Inl e)
    with Inr assms show ?thesis by (auto intro: readdir_throws)
  next
    case rd: (Inr es)
    then have "es = children fs1 src"
      by (auto simp add: readdirSync_def split: option.splits node.splits)
    with rd Inr assms show ?thesis by (auto intro: entries)
  qed
qed

text \<open>The copy changes the disk only at written paths and removes nothing.  The
  statement for the calls of depth \<open>n\<close> gives the one for the loop at that depth, and the
  loop gives the calls of depth \<open>Suc n\<close>.\<close>

lemma copyEntries_footprint:
  assumes sub: "\<And>src dest fs fs' r q. copyDirectoryRecursive n src dest u fs = Some (fs', r) \<Longrightarrow>
      map_of fs' q \<noteq> map_of fs q \<Longrightarrow> map_of fs' q \<noteq> None \<and> written dest fs q"
  shows "copyEntries n src dest u es fs = Some (fs', r) \<Longrightarrow> map_of fs' q \<noteq> map_of fs q
     \<Longrightarrow> map_of fs' q \<noteq> None \<and> written dest fs q"
proof (induction es arbitrary: fs)
  case Nil
  then show ?case by simp
next
  case (Cons entry entries)
  have rest: "map_of fs' q \<noteq> None \<and> written dest fs q"
    if step: "\<And>q. map_of fs1 q \<noteq> map_of fs q \<Longrightarrow> map_of fs1 q \<noteq> None \<and> written dest fs q"
      and run: "copyEntries n src dest u entries fs1 = Some (fs', r)"
    for fs1
  proof (cases "map_of fs' q = map_of fs1 q")
    case True
    with Cons.prems(2) step [of q] show ?thesis by simp
  next
    case False
    from Cons.IH [OF run False] have a: "map_of fs' q \<noteq> None" and b: "written dest fs1 q"
      by simp_all
    have "written dest fs q"
    proof (cases "map_of fs1 q = map_of fs q")
      case True
      with b show ?thesis by (simp add: written_def)
    next
      case False
      with step show ?thesis by simp
    qed
    with a show ?thesis by simp
  qed
  have dir_step: "map_of fs1 q \<noteq> None \<and> written dest fs q"
    if "\<not> skipped u dest fs entry"
      and "copyDirectoryRecursive n (src @ [name entry]) (dest @ [name entry]) u fs = Some (fs1, r1)"
      and "map_of fs1 q \<noteq> map_of fs q" for fs1 r1 q
    using sub [OF that(2,3)] that(1,3) written_child [of dest "name entry" fs q fs1]
    by (auto simp add: skipped_def)
  from Cons.prems(1) show ?case
  proof (cases rule: copyEntries_ConsE)
    case skip
    from Cons.IH [OF skip(2) Cons.prems(2)] show ?thesis .
  next
    case (dir_throws e)
    from dir_step [OF dir_throws(1,3) Cons.prems(2)] show ?thesis .
  next
    case (dir_done fs1)
    from rest [OF dir_step [OF dir_done(1,3)] dir_done(4)] show ?thesis .
  next
    case (file_throws e)
    with Cons.prems(2) show ?thesis by simp
  next
    case (file_done fs1)
    from map_of_copyFileSync [OF file_done(3)] obtain c where
      m: "map_of fs1 = (map_of fs)(dest @ [name entry] \<mapsto> File c)" by blast
    have "written dest fs (dest @ [name entry])"
      using file_done(1) unfolding written_def skipped_def
      by (intro disjI2 exI [of _ "[name entry]"]) simp
    with m have step: "map_of fs1 q \<noteq> map_of fs q \<Longrightarrow> map_of fs1 q \<noteq> None \<and> written dest fs q" for q
      by (auto split: if_splits)
    from rest [OF step file_done(4)] show ?thesis .
  qed
qed

lemma copy_footprint:
  "copyDirectoryRecursive n src dest u fs = Some (fs', r) \<Longrightarrow> map_of fs' q \<noteq> map_of fs q
     \<Longrightarrow> map_of fs' q \<noteq> None \<and> written dest fs q"
proof (induction n arbitrary: src dest fs fs' r q)
  case 0
  then show ?case by simp
next
  case (Suc n)
  have mk: "map_of fs1 q \<noteq> None \<and> written dest fs q"
    if "(if \<not> existsSync fs dest then mkdirSync fs dest else Inr fs) = Inr fs1"
      and "map_of fs1 q \<noteq> map_of fs q" for fs1 q
    using that by (auto simp add: written_def map_of_mkdirSync split: if_splits)
  from Suc.prems(1) show ?case
  proof (cases rule: copyDirectoryRecursive_SucE)
    case (mkdir_throws e)
    with Suc.prems(2) show ?thesis by simp
  next
    case (readdir_throws fs1 e)
    with mk [of fs1 q] Suc.prems(2) show ?thesis by simp
  next
    case (entries fs1)
    show ?thesis
    proof (cases "map_of fs' q = map_of fs1 q")
      case True
      with mk [OF entries(1), of q] Suc.prems(2) show ?thesis by simp
    next
      case False
      from copyEntries_footprint [OF Suc.IH entries(3) False]
      have a: "map_of fs' q \<noteq> None" and b: "written dest fs1 q" by simp_all
      have "written dest fs q"
      proof (cases "map_of fs1 q = map_of fs q")
        case True
        with b show ?thesis by (simp add: written_def)
      next
        case False
        with mk [OF entries(1)] show ?thesis by simp
      qed
      with a show ?thesis by simp
    qed
  qed
qed

lemma copy_keeps:
  "copyDirectoryRecursive n src dest u fs = Some (fs', r) \<Longrightarrow> map_of fs q \<noteq> None \<Longrightarrow> map_of fs' q \<noteq> None"
  using copy_footprint by (cases "map_of fs' q = map_of fs q") auto

lemma written_comparable: "written dest fs q \<Longrightarrow> prefix q dest \<or> prefix dest q"
  by (auto simp add: written_def)

lemma apart_append:
  assumes "\<not> prefix src dest" and "\<not> prefix dest src"
  shows "\<not> prefix (src @ xs) (dest @ ys)" and "\<not> prefix (dest @ ys) (src @ xs)"
proof -
  show "\<not> prefix (src @ xs) (dest @ ys)"
  proof
    assume "prefix (src @ xs) (dest @ ys)"
    then have "prefix src (dest @ ys)" using append_prefixD by blast
    moreover have "prefix dest (dest @ ys)" by simp
    ultimately show False using assms prefix_same_cases by blast
  qed
  show "\<not> prefix (dest @ ys) (src @ xs)"
  proof
    assume "prefix (dest @ ys) (src @ xs)"
    then have "prefix dest (src @ xs)" using append_prefixD by blast
    moreover have "prefix src (src @ xs)" by simp
    ultimately show False using assms prefix_same_cases by blast
  qed
qed

lemma copy_source_untouched:
  assumes "copyDirectoryRecursive n src' dest' u fs = Some (fs', r)"
    and "\<not> prefix p dest'" and "\<not> prefix dest' p"
  shows "map_of fs' p = map_of fs p"
  using copy_footprint [OF assms(1), of p] written_comparable [of dest' fs p] assms(2,3) by blast

text \<open>An entry that was there before the copy changes only where the source has an entry
  at the same relative path.\<close>

definition overwritten :: "path \<Rightarrow> path \<Rightarrow> fs \<Rightarrow> path \<Rightarrow> bool" where
  "overwritten src dest fs q \<longleftrightarrow> (\<exists>rel. rel \<noteq> [] \<and> q = dest @ rel \<and> map_of fs (src @ rel) \<noteq> None)"

lemma copyEntries_overwrites:
  assumes sub: "\<And>src dest fs fs' r q. copyDirectoryRecursive n src dest u fs = Some (fs', r) \<Longrightarrow>
      \<not> prefix src dest \<Longrightarrow> \<not> prefix dest src \<Longrightarrow> map_of fs q \<noteq> None \<Longrightarrow>
      map_of fs' q \<noteq> map_of fs q \<Longrightarrow> overwritten src dest fs q"
    and apart: "\<not> prefix src dest" "\<not> prefix dest src"
  shows "copyEntries n src dest u es fs = Some (fs', r) \<Longrightarrow> map_of fs q \<noteq> None \<Longrightarrow>
      map_of fs' q \<noteq> map_of fs q \<Longrightarrow> overwritten src dest fs q"
proof (induction es arbitrary: fs)
  case Nil
  then show ?case by simp
next
  case (Cons entry entries)
  let ?s = "src @ [name entry]" and ?d = "dest @ [name entry]"
  have apart': "\<not> prefix ?s ?d" "\<not> prefix ?d ?s"
    using apart_append [OF apart] by blast+
  have rest: "overwritten src dest fs q"
    if step: "map_of fs1 q \<noteq> map_of fs q \<Longrightarrow> overwritten src dest fs q"
      and keep: "map_of fs1 q \<noteq> None"
      and same: "\<And>rel. map_of fs1 (src @ rel) = map_of fs (src @ rel)"
      and run: "copyEntries n src dest u entries fs1 = Some (fs', r)"
    for fs1
  proof (cases "map_of fs' q = map_of fs1 q")
    case True
    with Cons.prems(3) step show ?thesis by simp
  next
    case False
    from Cons.IH [OF run keep False] same show ?thesis
      by (auto simp add: overwritten_def)
  qed
  have dir_step: "overwritten src dest fs q"
    if run: "copyDirectoryRecursive n ?s ?d u fs = Some (fs1, r1)"
      and ch: "map_of fs1 q \<noteq> map_of fs q" for fs1 r1
  proof -
    from sub [OF run apart' Cons.prems(2) ch] obtain rel where
      "rel \<noteq> []" "q = ?d @ rel" "map_of fs (?s @ rel) \<noteq> None"
      by (auto simp add: overwritten_def)
    then have "q = dest @ (name entry # rel)" "map_of fs (src @ (name entry # rel)) \<noteq> None"
      by simp_all
    then show ?thesis unfolding overwritten_def by blast
  qed
  from Cons.prems(1) show ?case
  proof (cases rule: copyEntries_ConsE)
    case skip
    from Cons.IH [OF skip(2) Cons.prems(2,3)] show ?thesis .
  next
    case (dir_throws e)
    from dir_step [OF dir_throws(3) Cons.prems(3)] show ?thesis .
  next
    case (dir_done fs1)
    have same: "map_of fs1 (src @ rel) = map_of fs (src @ rel)" for rel
      using copy_source_untouched [OF dir_done(3)] apart_append [OF apart] by blast
    from rest [OF dir_step [OF dir_done(3)] copy_keeps [OF dir_done(3) Cons.prems(2)] same dir_done(4)]
    show ?thesis .
  next
    case (file_throws e)
    with Cons.prems(3) show ?thesis by simp
  next
    case (file_done fs1)
    from map_of_copyFileSync [OF file_done(3)] obtain c where
      s: "map_of fs ?s = Some (File c)" and m: "map_of fs1 = (map_of fs)(?d \<mapsto> File c)" by blast
    have "src @ rel \<noteq> ?d" for rel
      using apart_append(1) [OF apart, of rel "[name entry]"] by auto
    with m have same: "map_of fs1 (src @ rel) = map_of fs (src @ rel)" for rel by simp
    have step: "map_of fs1 q \<noteq> map_of fs q \<Longrightarrow> overwritten src dest fs q"
    proof -
      assume "map_of fs1 q \<noteq> map_of fs q"
      with m have "q = dest @ [name entry]" by (auto split: if_splits)
      with s show ?thesis unfolding overwritten_def by (intro exI [of _ "[name entry]"]) simp
    qed
    from m Cons.prems(2) have keep: "map_of fs1 q \<noteq> None" by simp
    from rest [OF step keep same file_done(4)] show ?thesis .
  qed
qed

lemma copy_overwrites:
  "copyDirectoryRecursive n src dest u fs = Some (fs', r) \<Longrightarrow>
     \<not> prefix src dest \<Longrightarrow> \<not> prefix dest src \<Longrightarrow> map_of fs q \<noteq> None \<Longrightarrow>
     map_of fs' q \<noteq> map_of fs q \<Longrightarrow> overwritten src dest fs q"
proof (induction n arbitrary: src dest fs fs' r q)
  case 0
  then show ?case by simp
next
  case (Suc n)
  have mk: "map_of fs1 q = map_of fs q"
    if "(if \<not> existsSync fs dest then mkdirSync fs dest else Inr fs) = Inr fs1"
      and "map_of fs q \<noteq> None" for fs1 q
    using that by (auto simp add: map_of_mkdirSync split: if_splits)
  have mk_src: "map_of fs1 (src @ rel) = map_of fs (src @ rel)"
    if "(if \<not> existsSync fs dest then mkdirSync fs dest else Inr fs) = Inr fs1" for fs1 rel
    using that apart_append(1) [OF Suc.prems(2,3), of rel "[]"]
    by (auto simp add: map_of_mkdirSync split: if_splits)
  from Suc.prems(1) show ?case
  proof (cases rule: copyDirectoryRecursive_SucE)
    case (mkdir_throws e)
    with Suc.prems(5) show ?thesis by simp
  next
    case (readdir_throws fs1 e)
    with mk [OF readdir_throws(1) Suc.prems(4)] Suc.prems(5) show ?thesis by simp
  next
    case (entries fs1)
    from mk [OF entries(1) Suc.prems(4)] Suc.prems(4,5)
    have "map_of fs1 q \<noteq> None" "map_of fs' q \<noteq> map_of fs1 q" by simp_all
    from copyEntries_overwrites [OF Suc.IH Suc.prems(2,3) entries(3) this]
    show ?thesis using mk_src [OF entries(1)] by (auto simp add: overwritten_def)
  qed
qed

text \<open>The bound on the depth is not observable: a run that ends within \<open>n\<close> levels ends in
  the same way within any larger bound.\<close>

lemma copyEntries_more_fuel:
  assumes sub: "\<And>src dest fs x. copyDirectoryRecursive n src dest u fs = Some x \<Longrightarrow>
      copyDirectoryRecursive (Suc n) src dest u fs = Some x"
  shows "copyEntries n src dest u es fs = Some x \<Longrightarrow> copyEntries (Suc n) src dest u es fs = Some x"
proof (induction es arbitrary: fs)
  case Nil
  then show ?case by simp
next
  case (Cons entry entries)
  obtain fs' r where x: "x = (fs', r)" by (cases x)
  from Cons.prems [unfolded x] show ?case
  proof (cases rule: copyEntries_ConsE)
    case skip
    with Cons.IH [of fs] x show ?thesis
      by (auto simp add: skipped_def Let_def)
  next
    case (dir_throws e)
    with sub [OF dir_throws(3)] x show ?thesis
      by (auto simp add: skipped_def Let_def simp del: copyDirectoryRecursive.simps)
  next
    case (dir_done fs1)
    with sub [OF dir_done(3)] Cons.IH [of fs1] x show ?thesis
      by (auto simp add: skipped_def Let_def simp del: copyDirectoryRecursive.simps)
  next
    case (file_throws e)
    with x show ?thesis by (auto simp add: skipped_def Let_def)
  next
    case (file_done fs1)
    with Cons.IH [of fs1] x show ?thesis by (auto simp add: skipped_def Let_def)
  qed
qed

lemma copy_more_fuel:
  "copyDirectoryRecursive n src dest u fs = Some x \<Longrightarrow>
     copyDirectoryRecursive (Suc n) src dest u fs = Some x"
proof (induction n arbitrary: src dest fs x)
  case 0
  then show ?case by simp
next
  case (Suc n)
  obtain fs' r where x: "x = (fs', r)" by (cases x)
  from Suc.prems [unfolded x] show ?case
  proof (cases rule: copyDirectoryRecursive_SucE)
    case (mkdir_throws e)
    with x show ?thesis by simp
  next
    case (readdir_throws fs1 e)
    with x show ?thesis by simp
  next
    case (entries fs1)
    from copyEntries_more_fuel [OF Suc.IH entries(3)] entries(1,2) x show ?thesis by simp
  qed
qed

lemma copy_fuel_mono:
  "copyDirectoryRecursive n src dest u fs = Some x \<Longrightarrow> n \<le> k \<Longrightarrow>
     copyDirectoryRecursive k src dest u fs = Some x"
proof (induction k)
  case 0
  then show ?case by simp
next
  case (Suc k)
  show ?case
  proof (cases "n = Suc k")
    case True
    with Suc.prems show ?thesis by simp
  next
    case False
    with Suc.prems have "n \<le> k" by simp
    from copy_more_fuel [OF Suc.IH [OF Suc.prems(1) this]] show ?thesis .
  qed
qed

lemma updateProject_fuel_mono:
  "updateProject n rt now projectPath source fs = Some x \<Longrightarrow> n \<le> k \<Longrightarrow>
     updateProject k rt now projectPath source fs = Some x"
  by (auto simp add: updateProject_def Let_def dest: copy_fuel_mono split: if_splits option.splits)

lemma initializeProject_fuel_mono:
  "initializeProject n rt now projectPath source fs = Some x \<Longrightarrow> n \<le> k \<Longrightarrow>
     initializeProject k rt now projectPath source fs = Some x"
  by (auto simp add: initializeProject_def Let_def dest: copy_fuel_mono split: if_splits option.splits)

text \<open>When neither of source and destination contains the other, the copy never changes
  what lies below the source, and it returns once the bound exceeds the depth of the
  source tree.\<close>

text \<open>The length of the longest path of the disk below \<open>p\<close> (\<open>p\<close> included), 0 when there
  is none.\<close>

definition reach :: "fs \<Rightarrow> path \<Rightarrow> nat" where
  "reach fs p = Max (insert 0 (length ` {q \<in> dom (map_of fs). prefix p q}))"

lemma reach_finite: "finite (insert 0 (length ` {q \<in> dom (map_of fs). prefix p q}))"
  by (simp add: finite_dom_map_of)

lemma reach_ge: "map_of fs q \<noteq> None \<Longrightarrow> prefix p q \<Longrightarrow> length q \<le> reach fs p"
  unfolding reach_def by (rule Max_ge [OF reach_finite]) auto

lemma reach_cong:
  assumes "\<And>q. prefix p q \<Longrightarrow> map_of fs1 q = map_of fs q"
  shows "reach fs1 p = reach fs p"
proof -
  have "{q \<in> dom (map_of fs1). prefix p q} = {q \<in> dom (map_of fs). prefix p q}"
    using assms by (auto simp add: dom_def)
  then show ?thesis by (simp add: reach_def)
qed

lemma reach_child: "reach fs (p @ [x]) \<le> reach fs p"
proof -
  have "{q \<in> dom (map_of fs). prefix (p @ [x]) q} \<subseteq> {q \<in> dom (map_of fs). prefix p q}"
    using append_prefixD by auto
  then have "insert 0 (length ` {q \<in> dom (map_of fs). prefix (p @ [x]) q})
      \<subseteq> insert 0 (length ` {q \<in> dom (map_of fs). prefix p q})"
    by blast
  then show ?thesis
    unfolding reach_def by (rule Max_mono) (simp_all add: finite_dom_map_of)
qed

lemma copyEntries_returns:
  assumes sub: "\<And>src dest fs. \<not> prefix src dest \<Longrightarrow> \<not> prefix dest src \<Longrightarrow>
      reach fs src \<le> length src + m \<Longrightarrow> copyDirectoryRecursive (Suc m) src dest u fs \<noteq> None"
    and apart: "\<not> prefix src dest" "\<not> prefix dest src"
  shows "reach fs src \<le> length src + Suc m \<Longrightarrow> copyEntries (Suc m) src dest u es fs \<noteq> None"
proof (induction es arbitrary: fs)
  case Nil
  then show ?case by simp
next
  case (Cons entry entries)
  let ?s = "src @ [name entry]" and ?d = "dest @ [name entry]"
  have apart': "\<not> prefix ?s ?d" "\<not> prefix ?d ?s"
    using apart_append [OF apart] by blast+
  show ?case
  proof (cases "skipped u dest fs entry")
    case True
    with Cons.IH [OF Cons.prems] show ?thesis
      by (auto simp add: skipped_def Let_def simp del: copyDirectoryRecursive.simps)
  next
    case ns: False
    show ?thesis
    proof (cases "isDirectory entry")
      case True
      have "reach fs ?s \<le> length ?s + m"
        using reach_child [of fs src "name entry"] Cons.prems by simp
      from sub [OF apart' this] obtain fs1 r1 where
        run: "copyDirectoryRecursive (Suc m) ?s ?d u fs = Some (fs1, r1)" by auto
      have "map_of fs1 q = map_of fs q" if "prefix src q" for q
      proof -
        from that obtain rel where q: "q = src @ rel" by (auto simp add: prefix_def)
        have "\<not> prefix q ?d" "\<not> prefix ?d q"
          unfolding q using apart_append [OF apart, where xs = rel and ys = "[name entry]"] by blast+
        from copy_source_untouched [OF run this] show ?thesis .
      qed
      then have "reach fs1 src = reach fs src" by (rule reach_cong)
      with Cons.IH [of fs1] Cons.prems have "copyEntries (Suc m) src dest u entries fs1 \<noteq> None"
        by simp
      with ns True run show ?thesis
        by (cases r1) (auto simp add: skipped_def Let_def simp del: copyDirectoryRecursive.simps)
    next
      case False
      show ?thesis
      proof (cases "copyFileSync fs ?s ?d")
        case (Inl e)
        with ns False show ?thesis
          by (auto simp add: skipped_def Let_def simp del: copyDirectoryRecursive.simps)
      next
        case (Inr fs1)
        from map_of_copyFileSync [OF Inr] obtain c where
          m: "map_of fs1 = (map_of fs)(?d \<mapsto> File c)" by blast
        have "map_of fs1 q = map_of fs q" if "prefix src q" for q
        proof -
          from that obtain rel where "q = src @ rel" by (auto simp add: prefix_def)
          with apart_append(1) [OF apart, of rel "[name entry]"] have "q \<noteq> ?d" by auto
          with m show ?thesis by simp
        qed
        then have "reach fs1 src = reach fs src" by (rule reach_cong)
        with Cons.IH [of fs1] Cons.prems have "copyEntries (Suc m) src dest u entries fs1 \<noteq> None"
          by simp
        with ns False Inr show ?thesis
          by (auto simp add: skipped_def Let_def simp del: copyDirectoryRecursive.simps)
      qed
    qed
  qed
qed

lemma copy_returns:
  "\<not> prefix src dest \<Longrightarrow> \<not> prefix dest src \<Longrightarrow> reach fs src \<le> length src + n \<Longrightarrow>
     copyDirectoryRecursive (Suc n) src dest u fs \<noteq> None"
proof (induction n arbitrary: src dest fs)
  case 0
  show ?case
  proof (cases "if \<not> existsSync fs dest then mkdirSync fs dest else Inr fs")
    case (Inl e)
    then show ?thesis by simp
  next
    case (Inr fs1)
    have same: "map_of fs1 q = map_of fs q" if "prefix src q" for q
    proof -
      from that obtain rel where "q = src @ rel" by (auto simp add: prefix_def)
      with apart_append(1) [OF "0.prems"(1,2), of rel "[]"] Inr show ?thesis
        by (auto simp add: map_of_mkdirSync split: if_splits)
    qed
    have "children fs1 src = []"
    proof (rule ccontr)
      assume "children fs1 src \<noteq> []"
      then obtain e where "e \<in> set (children fs1 src)" by (cases "children fs1 src") auto
      from children_exist [OF this] have "map_of fs (src @ [name e]) \<noteq> None"
        using same [of "src @ [name e]"] by simp
      from reach_ge [OF this, of src] "0.prems"(3) show False by simp
    qed
    with Inr show ?thesis
      by (cases "readdirSync fs1 src") (auto simp add: readdirSync_def split: option.splits node.splits)
  qed
next
  case (Suc m)
  show ?case
  proof (cases "if \<not> existsSync fs dest then mkdirSync fs dest else Inr fs")
    case (Inl e)
    then show ?thesis by simp
  next
    case (Inr fs1)
    have "map_of fs1 q = map_of fs q" if "prefix src q" for q
    proof -
      from that obtain rel where "q = src @ rel" by (auto simp add: prefix_def)
      with apart_append(1) [OF Suc.prems(1,2), of rel "[]"] Inr show ?thesis
        by (auto simp add: map_of_mkdirSync split: if_splits)
    qed
    then have "reach fs1 src = reach fs src" by (rule reach_cong)
    with Suc.prems(3) have r: "reach fs1 src \<le> length src + Suc m" by simp
    have "copyEntries (Suc m) src dest u es fs1 \<noteq> None" for es
      using copyEntries_returns [OF Suc.IH Suc.prems(1,2) r] by blast
    with Inr show ?thesis
      by (cases "readdirSync fs1 src") (simp_all del: copyEntries.simps)
  qed
qed

lemma updateProject_returns_some:
  assumes "\<not> prefix source (projectPath @ [''.auto-claude''])"
    and "\<not> prefix (projectPath @ [''.auto-claude'']) source"
  shows "updateProject (Suc (reach fs source)) rt now projectPath source fs \<noteq> None"
proof -
  have "reach fs source \<le> length source + reach fs source" by simp
  from copy_returns [OF assms this, of True]
  show ?thesis
    by (auto simp add: updateProject_def Let_def simp del: copyDirectoryRecursive.simps
        split: option.splits prod.splits sum.splits)
qed

lemma initializeProject_returns_some:
  assumes "\<not> prefix source (projectPath @ [''.auto-claude''])"
    and "\<not> prefix (projectPath @ [''.auto-claude'']) source"
  shows "initializeProject (Suc (reach fs source)) rt now projectPath source fs \<noteq> None"
proof -
  have "reach fs source \<le> length source + reach fs source" by simp
  from copy_returns [OF assms this, of False]
  show ?thesis
    by (auto simp add: initializeProject_def Let_def simp del: copyDirectoryRecursive.simps
        split: option.splits prod.splits sum.splits)
qed

section \<open>An example platform and example disks\<close>

text \<open>
  To run the model on concrete disks the parameters of the platform need values.  The
  example platform collates names by their bytes, uses the stream itself as its digest
  and renders the sidecar as one line of fields separated by semicolons.
\<close>

fun split_on :: "char \<Rightarrow> string \<Rightarrow> string list" where
  "split_on c [] = [[]]"
| "split_on c (x # xs) =
    (if x = c then [] # split_on c xs
     else (case split_on c xs of [] \<Rightarrow> [[x]] | w # ws \<Rightarrow> (x # w) # ws))"

definition line_stringify :: "VersionMetadata \<Rightarrow> string" where
  "line_stringify m =
     VersionMetadata.version m @ '';'' @ sourceHash m @ '';''
       @ concat (map (\<lambda>c. ''/'' @ c) (VersionMetadata.sourcePath m))
       @ '';'' @ initializedAt m @ '';'' @ updatedAt m"

definition line_parse :: "string \<Rightarrow> VersionMetadata option" where
  "line_parse s =
     (case split_on CHR '';'' s of
        [v, h, p, i, u] \<Rightarrow>
          Some \<lparr>VersionMetadata.version = v, sourceHash = h,
                VersionMetadata.sourcePath = tl (split_on CHR ''/'' p),
                initializedAt = i, updatedAt = u\<rparr>
      | _ \<Rightarrow> None)"

definition example_runtime :: "string runtime" where
  "example_runtime = \<lparr>localeKey = id, sha256_hex = id,
      json_stringify = line_stringify, json_parse = line_parse\<rparr>"

section \<open>The source version (claim C8)\<close>

text \<open>What \<open>trim\<close> removes and what it leaves: a run of white space at each end is cut off,
  and what is left neither starts nor ends with white space.\<close>

lemma trimStart_decomp:
  "\<exists>lead. set lead \<subseteq> set whiteSpace \<and> s = concat lead @ trimStart s \<and>
     \<not> (\<exists>w\<in>set whiteSpace. prefix w (trimStart s))"
proof (induction s rule: trimStart.induct)
  case (1 s)
  show ?case
  proof (cases "find (\<lambda>w. prefix w s) whiteSpace")
    case None
    then have "trimStart s = s" by (simp add: trimStart.simps [of s])
    moreover from None have "\<not> (\<exists>w\<in>set whiteSpace. prefix w s)"
      by (auto simp add: find_None_iff)
    ultimately have "set [] \<subseteq> set whiteSpace \<and> s = concat [] @ trimStart s \<and>
        \<not> (\<exists>w\<in>set whiteSpace. prefix w (trimStart s))" by simp
    then show ?thesis by blast
  next
    case (Some w)
    from find_whiteSpace [OF Some] have w: "prefix w s" "w \<in> set whiteSpace" by simp_all
    from Some have t: "trimStart s = trimStart (drop (length w) s)"
      by (simp add: trimStart.simps [of s])
    from "1.IH" [OF Some] obtain lead where l: "set lead \<subseteq> set whiteSpace"
      "drop (length w) s = concat lead @ trimStart (drop (length w) s)"
      "\<not> (\<exists>w'\<in>set whiteSpace. prefix w' (trimStart (drop (length w) s)))" by blast
    from w(1) have "s = w @ drop (length w) s" by (auto simp add: prefix_def)
    with l(2) have "s = concat (w # lead) @ trimStart s" using t by simp
    moreover have "set (w # lead) \<subseteq> set whiteSpace" using w(2) l(1) by simp
    ultimately show ?thesis using l(3) t by metis
  qed
qed

lemma trimEnd_decomp:
  "\<exists>trail. set trail \<subseteq> set whiteSpace \<and> s = trimEnd s @ concat trail \<and>
     \<not> (\<exists>w\<in>set whiteSpace. suffix w (trimEnd s))"
proof (induction s rule: trimEnd.induct)
  case (1 s)
  show ?case
  proof (cases "find (\<lambda>w. suffix w s) whiteSpace")
    case None
    then have "trimEnd s = s" by (simp add: trimEnd.simps [of s])
    moreover from None have "\<not> (\<exists>w\<in>set whiteSpace. suffix w s)"
      by (auto simp add: find_None_iff)
    ultimately have "set [] \<subseteq> set whiteSpace \<and> s = trimEnd s @ concat [] \<and>
        \<not> (\<exists>w\<in>set whiteSpace. suffix w (trimEnd s))" by simp
    then show ?thesis by blast
  next
    case (Some w)
    from find_whiteSpace [OF Some] have w: "suffix w s" "w \<in> set whiteSpace" by simp_all
    define r where "r = take (length s - length w) s"
    from Some have t: "trimEnd s = trimEnd r"
      by (simp add: trimEnd.simps [of s] r_def)
    from "1.IH" [OF Some] obtain trail where l: "set trail \<subseteq> set whiteSpace"
      "r = trimEnd r @ concat trail"
      "\<not> (\<exists>w'\<in>set whiteSpace. suffix w' (trimEnd r))" unfolding r_def by blast
    from w(1) have "s = r @ w" by (auto simp add: suffix_def r_def)
    then have "s = (trimEnd r @ concat trail) @ w" using l(2) by simp
    then have "s = trimEnd s @ concat (trail @ [w])" using t by simp
    moreover have "set (trail @ [w]) \<subseteq> set whiteSpace" using w(2) l(1) by simp
    ultimately show ?thesis using l(3) t by metis
  qed
qed

lemma prefix_trimEnd: "prefix (trimEnd s) s"
  using trimEnd_decomp [of s] by (metis prefixI)

lemma trim_decomp:
  "\<exists>lead trail. set lead \<subseteq> set whiteSpace \<and> set trail \<subseteq> set whiteSpace \<and>
     s = concat lead @ trim s @ concat trail \<and>
     \<not> (\<exists>w\<in>set whiteSpace. prefix w (trim s) \<or> suffix w (trim s))"
proof -
  from trimStart_decomp [of s] obtain lead where l: "set lead \<subseteq> set whiteSpace"
    "s = concat lead @ trimStart s" "\<not> (\<exists>w\<in>set whiteSpace. prefix w (trimStart s))" by blast
  from trimEnd_decomp [of "trimStart s"] obtain trail where t: "set trail \<subseteq> set whiteSpace"
    "trimStart s = trim s @ concat trail" "\<not> (\<exists>w\<in>set whiteSpace. suffix w (trim s))"
    unfolding trim_def by blast
  have "\<not> (\<exists>w\<in>set whiteSpace. prefix w (trim s))"
    using l(3) prefix_trimEnd [of "trimStart s"] unfolding trim_def
    by (meson prefix_order.trans)
  moreover from l(2) t(2) have "s = concat lead @ trim s @ concat trail" by simp
  ultimately show ?thesis using l(1) t(1) t(3) by blast
qed

text \<open>Decoding leaves well-formed UTF-8 as it is, and what it gives is well-formed.\<close>

lemma decodeUTF8_wellFormed_imp: "wellFormedUTF8 s \<longrightarrow> decodeUTF8 s = s"
  by (induction s rule: wellFormedUTF8.induct) (simp_all split: list.split)

lemma decodeUTF8_wellFormed: "wellFormedUTF8 s \<Longrightarrow> decodeUTF8 s = s"
  using decodeUTF8_wellFormed_imp by blast

lemma wellFormed_decodeUTF8: "wellFormedUTF8 (decodeUTF8 s)"
  by (induction s rule: decodeUTF8.induct)
     (auto simp add: replacement_def bytesNeeded_def secondByte_def continuation_def Let_def
        split: list.splits if_splits)

text \<open>The reading of the version marker that the specification describes: the first line
  of the file, trimmed.\<close>

definition spec_firstLineTrimmed :: "string \<Rightarrow> string" where
  "spec_firstLineTrimmed text = trim (takeWhile (\<lambda>c. c \<noteq> CHR 0x0A) (decodeUTF8 text))"

text \<open>
  Claim C8, as the code has it: when the version marker is a regular file,
  \<^verbatim>\<open>readSourceVersion\<close> returns the whole text of the marker (not its first line) without
  the white space at its two ends: the decoded text is a run of white space, then the
  version returned, then a run of white space, and the version neither starts nor ends
  with white space; line breaks inside it are kept.  White space is that of
  \<^verbatim>\<open>String.prototype.trim\<close>, and the decoded text is the text itself when the bytes of the
  marker are well-formed UTF-8.  When the marker is absent the function returns \<^verbatim>\<open>0.0.0\<close>
  and does not throw.
\<close>

theorem readSourceVersion_whole_text:
  "(map_of fs (source @ [''VERSION'']) = Some (File text) \<longrightarrow>
      (\<exists>lead v trail. readSourceVersion fs source = Inr v \<and>
         decodeUTF8 text = concat lead @ v @ concat trail \<and>
         set lead \<subseteq> set whiteSpace \<and> set trail \<subseteq> set whiteSpace \<and>
         \<not> (\<exists>w\<in>set whiteSpace. prefix w v \<or> suffix w v))) \<and>
   (wellFormedUTF8 text \<longrightarrow> decodeUTF8 text = text) \<and>
   (\<not> existsSync fs (source @ [''VERSION'']) \<longrightarrow> readSourceVersion fs source = Inr ''0.0.0'')"
proof (intro conjI impI)
  assume "map_of fs (source @ [''VERSION'']) = Some (File text)"
  then have "readSourceVersion fs source = Inr (trim (decodeUTF8 text))"
    by (simp add: readSourceVersion_def existsSync_def readFileSync_def)
  with trim_decomp [of "decodeUTF8 text"]
  show "\<exists>lead v trail. readSourceVersion fs source = Inr v \<and>
         decodeUTF8 text = concat lead @ v @ concat trail \<and>
         set lead \<subseteq> set whiteSpace \<and> set trail \<subseteq> set whiteSpace \<and>
         \<not> (\<exists>w\<in>set whiteSpace. prefix w v \<or> suffix w v)"
    by blast
next
  assume "wellFormedUTF8 text"
  then show "decodeUTF8 text = text" by (rule decodeUTF8_wellFormed)
next
  assume "\<not> existsSync fs (source @ [''VERSION''])"
  then show "readSourceVersion fs source = Inr ''0.0.0''"
    by (simp add: readSourceVersion_def)
qed

text \<open>A marker that starts with a byte order mark and a space and ends with a no-break
  space, a carriage return and a line feed; and a marker whose first byte, \<open>0xFF\<close>, is not
  UTF-8.\<close>

definition padded_text :: string where
  "padded_text = [CHR 0xEF, CHR 0xBB, CHR 0xBF] @ '' 1.2.3'' @ [CHR 0xC2, CHR 0xA0, CHR 0x0D, CHR 0x0A]"

definition padded_disk :: fs where
  "padded_disk = [([], Dir), ([''s''], Dir), ([''s'', ''VERSION''], File padded_text),
     ([''b''], Dir), ([''b'', ''VERSION''], File ([CHR 0xFF] @ ''1.0'' @ [CHR 0x0A]))]"

theorem readSourceVersion_whole_text_witness:
  "map_of padded_disk ([''s''] @ [''VERSION'']) = Some (File padded_text) \<and>
   wellFormedUTF8 padded_text \<and>
   (\<exists>lead v trail. readSourceVersion padded_disk [''s''] = Inr v \<and>
      padded_text = concat lead @ v @ concat trail \<and>
      set lead \<subseteq> set whiteSpace \<and> set trail \<subseteq> set whiteSpace \<and>
      \<not> (\<exists>w\<in>set whiteSpace. prefix w v \<or> suffix w v)) \<and>
   readSourceVersion padded_disk [''s''] = Inr ''1.2.3'' \<and>
   map_of padded_disk ([''b''] @ [''VERSION'']) = Some (File ([CHR 0xFF] @ ''1.0'' @ [CHR 0x0A])) \<and>
   readSourceVersion padded_disk [''b''] = Inr ([CHR 0xEF, CHR 0xBF, CHR 0xBD] @ ''1.0'') \<and>
   \<not> existsSync padded_disk ([''p''] @ [''VERSION'']) \<and>
   readSourceVersion padded_disk [''p''] = Inr ''0.0.0''"
proof -
  have a: "map_of padded_disk ([''s''] @ [''VERSION'']) = Some (File padded_text)"
    "map_of padded_disk ([''b''] @ [''VERSION'']) = Some (File ([CHR 0xFF] @ ''1.0'' @ [CHR 0x0A]))"
    by (simp_all add: padded_disk_def)
  have b: "wellFormedUTF8 padded_text"
    by code_simp
  have c: "readSourceVersion padded_disk [''s''] = Inr ''1.2.3''"
    "readSourceVersion padded_disk [''b''] = Inr ([CHR 0xEF, CHR 0xBF, CHR 0xBD] @ ''1.0'')"
    by code_simp+
  have d: "\<not> existsSync padded_disk ([''p''] @ [''VERSION''])"
    by (simp add: padded_disk_def existsSync_def)
  from readSourceVersion_whole_text [of padded_disk "[''s'']" padded_text]
    readSourceVersion_whole_text [of padded_disk "[''p'']"] a b c d
  show ?thesis by auto
qed

definition two_line_disk :: fs where
  "two_line_disk = [([], Dir), ([''s''], Dir),
     ([''s'', ''VERSION''], File (''1.0.0'' @ [CHR 0x0A] @ ''beta''))]"

text \<open>On a marker of two lines the code returns both lines, the specification's reading only
  the first.\<close>

theorem readSourceVersion_first_line_counterexample:
  "readSourceVersion two_line_disk [''s''] = Inr (''1.0.0'' @ [CHR 0x0A] @ ''beta'') \<and>
   spec_firstLineTrimmed (''1.0.0'' @ [CHR 0x0A] @ ''beta'') = ''1.0.0'' \<and>
   readSourceVersion two_line_disk [''s''] \<noteq> Inr (spec_firstLineTrimmed (''1.0.0'' @ [CHR 0x0A] @ ''beta''))"
proof -
  have a: "readSourceVersion two_line_disk [''s''] = Inr (''1.0.0'' @ [CHR 0x0A] @ ''beta'')"
    by code_simp
  have b: "spec_firstLineTrimmed (''1.0.0'' @ [CHR 0x0A] @ ''beta'') = ''1.0.0''"
    by code_simp
  from a b show ?thesis by simp
qed

section \<open>The version check (claims C1 and C10)\<close>

text \<open>
  Claim C1: for a project whose installed folder exists and whose sidecar is readable,
  and a source folder that exists (and whose marker and tree can be read),
  \<^verbatim>\<open>checkVersion\<close> returns, leaves the disk as it is, and reports an update exactly when
  the hash of the source differs from the stored hash and the version of the source
  differs from the stored version.
\<close>

theorem checkVersion_updateAvailable:
  assumes "existsSync fs (projectPath @ [''.auto-claude''])"
    and "readVersionMetadata rt fs (projectPath @ [''.auto-claude'']) = Some m"
    and "existsSync fs source"
    and "readSourceVersion fs source = Inr v"
    and "calculateDirectoryHash rt fs source = Inr h"
  shows "\<exists>res. checkVersion rt now projectPath source fs = (fs, Inr res) \<and>
      updateAvailable res = (sourceHash m \<noteq> h \<and> VersionMetadata.version m \<noteq> v)"
  using assms by (simp add: checkVersion_def Let_def)

text \<open>
  Claim C10: whenever \<^verbatim>\<open>checkVersion\<close> returns a result, its \<^verbatim>\<open>sourcePath\<close> field is the
  path of the installed folder \<^verbatim>\<open>.auto-claude\<close> of the project when that folder exists, and
  is absent when it does not; it is never taken from the caller's source path.
\<close>

theorem checkVersion_sourcePath:
  assumes "checkVersion rt now projectPath source fs = (fs', Inr res)"
  shows "VersionCheckResult.sourcePath res =
      (if existsSync fs (projectPath @ [''.auto-claude''])
       then Some (projectPath @ [''.auto-claude'']) else None)"
  using assms
  by (auto simp add: checkVersion_def Let_def retroactiveMetadata_def
      split: if_splits option.splits sum.splits prod.splits)

definition installed_disk :: fs where
  "installed_disk = [([], Dir), ([''s''], Dir), ([''s'', ''VERSION''], File ''1.1.0''),
     ([''s'', ''README.md''], File ''new''), ([''p''], Dir), ([''p'', ''.auto-claude''], Dir),
     ([''p'', ''.auto-claude'', ''README.md''], File ''old''),
     ([''p'', ''.auto-claude'', ''.version.json''], File ''1.0.0;abc123;/s;t0;t0'')]"

definition installed_metadata :: VersionMetadata where
  "installed_metadata = \<lparr>VersionMetadata.version = ''1.0.0'', sourceHash = ''abc123'',
     VersionMetadata.sourcePath = [''s''], initializedAt = ''t0'', updatedAt = ''t0''\<rparr>"

lemma installed_disk_metadata:
  "readVersionMetadata example_runtime installed_disk ([''p''] @ [''.auto-claude'']) = Some installed_metadata"
  by (simp add: readVersionMetadata_def installed_disk_def existsSync_def readFileSync_def
      example_runtime_def line_parse_def installed_metadata_def)

lemma installed_disk_hash:
  "calculateDirectoryHash example_runtime installed_disk [''s''] = Inr ''file:README.md:3''"
  by (simp add: calculateDirectoryHash_def processDirectory.simps installed_disk_def existsSync_def
      readdirSync_def children_def readFileSync_def shouldExclude_iff endsWith_def decimal.simps
      digit_def example_runtime_def)

lemma installed_disk_version: "readSourceVersion installed_disk [''s''] = Inr ''1.1.0''"
  by code_simp

theorem checkVersion_updateAvailable_witness:
  "existsSync installed_disk ([''p''] @ [''.auto-claude'']) \<and>
   readVersionMetadata example_runtime installed_disk ([''p''] @ [''.auto-claude'']) = Some installed_metadata \<and>
   existsSync installed_disk [''s''] \<and>
   readSourceVersion installed_disk [''s''] = Inr ''1.1.0'' \<and>
   calculateDirectoryHash example_runtime installed_disk [''s''] = Inr ''file:README.md:3'' \<and>
   (\<exists>res. checkVersion example_runtime ''t1'' [''p''] [''s''] installed_disk = (installed_disk, Inr res) \<and>
      updateAvailable res = True)"
proof -
  have a: "existsSync installed_disk ([''p''] @ [''.auto-claude''])"
    and b: "existsSync installed_disk [''s'']"
    by (simp_all add: installed_disk_def existsSync_def)
  from checkVersion_updateAvailable [OF a installed_disk_metadata b installed_disk_version
      installed_disk_hash, of "''t1''"]
  have "\<exists>res. checkVersion example_runtime ''t1'' [''p''] [''s''] installed_disk = (installed_disk, Inr res) \<and>
      updateAvailable res = True"
    by (simp add: installed_metadata_def)
  with a b installed_disk_metadata installed_disk_version installed_disk_hash show ?thesis
    by blast
qed

theorem checkVersion_sourcePath_witness:
  "checkVersion example_runtime ''t1'' [''p''] [''s''] installed_disk =
     (installed_disk, Inr \<lparr>isInitialized = True, currentVersion = Some ''1.0.0'',
        sourceVersion = Some ''1.1.0'', updateAvailable = True,
        VersionCheckResult.sourcePath = Some [''p'', ''.auto-claude'']\<rparr>) \<and>
   VersionCheckResult.sourcePath \<lparr>isInitialized = True, currentVersion = Some ''1.0.0'',
        sourceVersion = Some ''1.1.0'', updateAvailable = True,
        VersionCheckResult.sourcePath = Some [''p'', ''.auto-claude'']\<rparr> =
     (if existsSync installed_disk ([''p''] @ [''.auto-claude''])
      then Some ([''p''] @ [''.auto-claude'']) else None)"
proof -
  have a: "existsSync installed_disk ([''p''] @ [''.auto-claude''])"
    and b: "existsSync installed_disk [''s'']"
    by (simp_all add: installed_disk_def existsSync_def)
  have run: "checkVersion example_runtime ''t1'' [''p''] [''s''] installed_disk =
     (installed_disk, Inr \<lparr>isInitialized = True, currentVersion = Some ''1.0.0'',
        sourceVersion = Some ''1.1.0'', updateAvailable = True,
        VersionCheckResult.sourcePath = Some [''p'', ''.auto-claude'']\<rparr>)"
    using a b installed_disk_metadata installed_disk_version installed_disk_hash
    by (simp add: checkVersion_def Let_def installed_metadata_def)
  from checkVersion_sourcePath [OF run] run show ?thesis by simp
qed

section \<open>Initialization (claims C3, C9)\<close>

lemma ensureDataDirectory_done:
  assumes "ensureDataDirectory fs d = Inr fs'"
  shows "map_of fs' d = Some Dir"
    and "map_of fs' (d @ [''.gitkeep'']) = Some (File [])"
    and "\<And>q. q \<noteq> d @ [''.gitkeep''] \<Longrightarrow> map_of fs q \<noteq> None \<Longrightarrow> map_of fs' q = map_of fs q"
    and "\<And>q. map_of fs q \<noteq> None \<Longrightarrow> map_of fs' q \<noteq> None"
proof -
  from assms obtain fs1 where
    mk: "(if \<not> existsSync fs d then mkdirSync fs d else Inr fs) = Inr fs1"
    and wr: "writeFileSync fs1 (d @ [''.gitkeep'']) [] = Inr fs'"
    by (auto simp add: ensureDataDirectory_def split: sum.splits)
  from map_of_writeFileSync [OF wr] have m: "map_of fs' = (map_of fs1)(d @ [''.gitkeep''] \<mapsto> File [])" .
  from writeFileSync_parent [OF wr] have "map_of fs1 d = Some Dir" by simp
  with m show "map_of fs' d = Some Dir" by simp
  from m show "map_of fs' (d @ [''.gitkeep'']) = Some (File [])" by simp
  show "map_of fs' q = map_of fs q" if "q \<noteq> d @ [''.gitkeep'']" "map_of fs q \<noteq> None" for q
    using that mk m by (auto simp add: map_of_mkdirSync split: if_splits)
  show "map_of fs' q \<noteq> None" if "map_of fs q \<noteq> None" for q
    using that mk m by (auto simp add: map_of_mkdirSync split: if_splits)
qed

lemma scaffold_done:
  assumes "scaffold rt now source dot fs = (fs', Inr v)"
  shows "\<exists>h. map_of fs' (dot @ [''.version.json'']) =
            Some (File (json_stringify rt \<lparr>VersionMetadata.version = v, sourceHash = h,
               VersionMetadata.sourcePath = source, initializedAt = now, updatedAt = now\<rparr>))"
    and "map_of fs' dot = Some Dir"
    and "d \<in> {''specs'', ''roadmap'', ''ideation''} \<Longrightarrow>
           map_of fs' (dot @ [d]) = Some Dir \<and> map_of fs' (dot @ [d, ''.gitkeep'']) = Some (File [])"
    and "map_of fs q \<noteq> None \<Longrightarrow> map_of fs' q \<noteq> None"
proof -
  from assms obtain fs1 fs2 fs3 fs4 h where
    e1: "ensureDataDirectory fs (dot @ [''specs'']) = Inr fs1"
    and e2: "ensureDataDirectory fs1 (dot @ [''roadmap'']) = Inr fs2"
    and e3: "ensureDataDirectory fs2 (dot @ [''ideation'']) = Inr fs3"
    and env: "(if existsSync fs3 (dot @ [''.env.example'']) \<and> \<not> existsSync fs3 (dot @ [''.env''])
           then copyFileSync fs3 (dot @ [''.env.example'']) (dot @ [''.env'']) else Inr fs3) = Inr fs4"
    and wr: "writeVersionMetadata rt fs4 dot \<lparr>VersionMetadata.version = v, sourceHash = h,
               VersionMetadata.sourcePath = source, initializedAt = now, updatedAt = now\<rparr> = Inr fs'"
    by (auto simp add: scaffold_def Let_def split: sum.splits)
  let ?m = "\<lparr>VersionMetadata.version = v, sourceHash = h,
               VersionMetadata.sourcePath = source, initializedAt = now, updatedAt = now\<rparr>"
  from wr have wr': "writeFileSync fs4 (dot @ [''.version.json'']) (json_stringify rt ?m) = Inr fs'"
    by (simp add: writeVersionMetadata_def)
  from map_of_writeFileSync [OF wr']
  have m5: "map_of fs' = (map_of fs4)(dot @ [''.version.json''] \<mapsto> File (json_stringify rt ?m))" .
  then show "\<exists>h. map_of fs' (dot @ [''.version.json'']) =
            Some (File (json_stringify rt \<lparr>VersionMetadata.version = v, sourceHash = h,
               VersionMetadata.sourcePath = source, initializedAt = now, updatedAt = now\<rparr>))"
    by auto
  from writeFileSync_parent [OF wr'] m5 show "map_of fs' dot = Some Dir" by simp
  have m4: "map_of fs4 q = map_of fs3 q" if "q \<noteq> dot @ [''.env'']" for q
    using env that by (auto dest!: map_of_copyFileSync split: if_splits)
  note s = ensureDataDirectory_done [OF e1] and r = ensureDataDirectory_done [OF e2]
    and i = ensureDataDirectory_done [OF e3]
  have "map_of fs3 (dot @ [''specs'']) = Some Dir"
    "map_of fs3 (dot @ [''specs'', ''.gitkeep'']) = Some (File [])"
    "map_of fs3 (dot @ [''roadmap'']) = Some Dir"
    "map_of fs3 (dot @ [''roadmap'', ''.gitkeep'']) = Some (File [])"
    "map_of fs3 (dot @ [''ideation'']) = Some Dir"
    "map_of fs3 (dot @ [''ideation'', ''.gitkeep'']) = Some (File [])"
    using s(1,2) r i by simp_all
  then show "map_of fs' (dot @ [d]) = Some Dir \<and> map_of fs' (dot @ [d, ''.gitkeep'']) = Some (File [])"
    if "d \<in> {''specs'', ''roadmap'', ''ideation''}"
    using that m4 m5 by auto
  have k4: "map_of fs3 q \<noteq> None \<Longrightarrow> map_of fs4 q \<noteq> None" for q
    using env by (auto dest!: map_of_copyFileSync split: if_splits)
  show "map_of fs' q \<noteq> None" if "map_of fs q \<noteq> None"
    using that s(4) r(4) i(4) k4 m5 by auto
qed

lemma initializeProject_success:
  assumes "initializeProject fuel rt now projectPath source fs = Some (fs', res)" and "success res"
  obtains fs1 v where
    "existsSync fs source" "existsSync fs projectPath" "\<not> existsSync fs (projectPath @ [''.auto-claude''])"
    "copyDirectoryRecursive fuel source (projectPath @ [''.auto-claude'']) False fs = Some (fs1, None)"
    "scaffold rt now source (projectPath @ [''.auto-claude'']) fs1 = (fs', Inr v)"
    "res = \<lparr>success = True, error = None, InitializationResult.version = Some v, wasUpdate = Some False\<rparr>"
  using assms
  by (auto simp add: initializeProject_def Let_def failure_def
      split: if_splits option.splits prod.splits sum.splits)

text \<open>
  Claim C3: when the source folder does not exist, or the project folder does not exist,
  or the installed folder \<^verbatim>\<open>.auto-claude\<close> already exists, \<^verbatim>\<open>initializeProject\<close> returns a
  failure and the disk is the one it was given; and after a successful call every further
  call on the same project (whatever its source) returns a failure and leaves the disk of
  the first call as it is.
\<close>

theorem initializeProject_refuses:
  "(\<not> existsSync fs source \<or> \<not> existsSync fs projectPath \<or>
      existsSync fs (projectPath @ [''.auto-claude'']) \<longrightarrow>
      (\<exists>msg. initializeProject fuel rt now projectPath source fs = Some (fs, failure msg))) \<and>
   (initializeProject fuel rt now projectPath source fs = Some (fs1, res) \<and> success res \<longrightarrow>
      (\<exists>msg. initializeProject fuel2 rt2 now2 projectPath source2 fs1 = Some (fs1, failure msg)))"
proof (intro conjI impI)
  assume "\<not> existsSync fs source \<or> \<not> existsSync fs projectPath \<or>
      existsSync fs (projectPath @ [''.auto-claude''])"
  then show "\<exists>msg. initializeProject fuel rt now projectPath source fs = Some (fs, failure msg)"
    by (auto simp add: initializeProject_def Let_def)
next
  assume a: "initializeProject fuel rt now projectPath source fs = Some (fs1, res) \<and> success res"
  then obtain fs0 v where
    sc: "scaffold rt now source (projectPath @ [''.auto-claude'']) fs0 = (fs1, Inr v)"
    by (auto elim: initializeProject_success)
  from scaffold_done(2) [OF sc] have "existsSync fs1 (projectPath @ [''.auto-claude''])"
    by (simp add: existsSync_def)
  then show "\<exists>msg. initializeProject fuel2 rt2 now2 projectPath source2 fs1 = Some (fs1, failure msg)"
    by (auto simp add: initializeProject_def Let_def)
qed

definition fresh_disk :: fs where
  "fresh_disk = [([], Dir), ([''s''], Dir), ([''s'', ''VERSION''], File ''1.1.0''),
     ([''s'', ''README.md''], File ''new''), ([''s'', ''roadmap''], Dir),
     ([''s'', ''.env.example''], File ''KEY=''), ([''p''], Dir)]"

definition initialized_disk :: fs where
  "initialized_disk = [([], Dir), ([''s''], Dir), ([''s'', ''VERSION''], File ''1.1.0''),
     ([''s'', ''README.md''], File ''new''), ([''s'', ''roadmap''], Dir),
     ([''s'', ''.env.example''], File ''KEY=''), ([''p''], Dir),
     ([''p'', ''.auto-claude''], Dir),
     ([''p'', ''.auto-claude'', ''.env.example''], File ''KEY=''),
     ([''p'', ''.auto-claude'', ''README.md''], File ''new''),
     ([''p'', ''.auto-claude'', ''VERSION''], File ''1.1.0''),
     ([''p'', ''.auto-claude'', ''roadmap''], Dir),
     ([''p'', ''.auto-claude'', ''specs''], Dir),
     ([''p'', ''.auto-claude'', ''specs'', ''.gitkeep''], File []),
     ([''p'', ''.auto-claude'', ''roadmap'', ''.gitkeep''], File []),
     ([''p'', ''.auto-claude'', ''ideation''], Dir),
     ([''p'', ''.auto-claude'', ''ideation'', ''.gitkeep''], File []),
     ([''p'', ''.auto-claude'', ''.env''], File ''KEY=''),
     ([''p'', ''.auto-claude'', ''.version.json''], File ''1.1.0;file:.env.exampl;/s;t0;t0'')]"

lemma fresh_disk_initialize:
  "initializeProject 3 example_runtime ''t0'' [''p''] [''s''] fresh_disk =
     Some (initialized_disk, \<lparr>success = True, error = None,
       InitializationResult.version = Some ''1.1.0'', wasUpdate = Some False\<rparr>)"
  by code_simp

theorem initializeProject_refuses_witness:
  "\<not> existsSync fresh_disk [''x''] \<and>
   (\<exists>msg. initializeProject 3 example_runtime ''t0'' [''p''] [''x''] fresh_disk = Some (fresh_disk, failure msg)) \<and>
   initializeProject 3 example_runtime ''t0'' [''p''] [''s''] fresh_disk =
     Some (initialized_disk, \<lparr>success = True, error = None,
       InitializationResult.version = Some ''1.1.0'', wasUpdate = Some False\<rparr>) \<and>
   success \<lparr>success = True, error = None,
       InitializationResult.version = Some ''1.1.0'', wasUpdate = Some False\<rparr> \<and>
   (\<exists>msg. initializeProject 3 example_runtime ''t1'' [''p''] [''s''] initialized_disk =
      Some (initialized_disk, failure msg))"
proof -
  have a: "\<not> existsSync fresh_disk [''x'']"
    by (simp add: fresh_disk_def existsSync_def)
  from initializeProject_refuses [where fs = fresh_disk and source = "[''x'']" and projectPath = "[''p'']"
      and fuel = 3 and rt = example_runtime and now = "''t0''"] a
  have b: "\<exists>msg. initializeProject 3 example_runtime ''t0'' [''p''] [''x''] fresh_disk = Some (fresh_disk, failure msg)"
    by blast
  from initializeProject_refuses [where fs = fresh_disk and source = "[''s'']" and projectPath = "[''p'']"
      and fuel = 3 and rt = example_runtime and now = "''t0''" and ?fs1.0 = initialized_disk
      and ?fuel2.0 = 3 and ?rt2.0 = example_runtime and ?now2.0 = "''t1''" and ?source2.0 = "[''s'']"
      and res = "\<lparr>success = True, error = None,
        InitializationResult.version = Some ''1.1.0'', wasUpdate = Some False\<rparr>"]
    fresh_disk_initialize
  have c: "\<exists>msg. initializeProject 3 example_runtime ''t1'' [''p''] [''s''] initialized_disk =
      Some (initialized_disk, failure msg)"
    by simp
  from a b c fresh_disk_initialize show ?thesis by simp
qed

text \<open>
  Claim C9, as the code has it: after every successful \<^verbatim>\<open>initializeProject\<close> each of the
  three data directories \<^verbatim>\<open>specs\<close>, \<^verbatim>\<open>roadmap\<close> and \<^verbatim>\<open>ideation\<close> exists inside the
  installed folder and holds an empty marker file \<^verbatim>\<open>.gitkeep\<close>.  The marker is written
  after the conditional that creates the directory, so also into a directory that the
  copy has already made.
\<close>

theorem initializeProject_data_directories:
  assumes "initializeProject fuel rt now projectPath source fs = Some (fs', res)"
    and "success res"
    and "d \<in> {''specs'', ''roadmap'', ''ideation''}"
  shows "map_of fs' (projectPath @ [''.auto-claude'', d]) = Some Dir \<and>
         map_of fs' (projectPath @ [''.auto-claude'', d, ''.gitkeep'']) = Some (File [])"
proof -
  from assms(1,2) obtain fs1 v where
    "scaffold rt now source (projectPath @ [''.auto-claude'']) fs1 = (fs', Inr v)"
    by (auto elim: initializeProject_success)
  from scaffold_done(3) [OF this assms(3)] show ?thesis by simp
qed

theorem initializeProject_data_directories_witness:
  "initializeProject 3 example_runtime ''t0'' [''p''] [''s''] fresh_disk =
     Some (initialized_disk, \<lparr>success = True, error = None,
       InitializationResult.version = Some ''1.1.0'', wasUpdate = Some False\<rparr>) \<and>
   success \<lparr>success = True, error = None,
       InitializationResult.version = Some ''1.1.0'', wasUpdate = Some False\<rparr> \<and>
   ''ideation'' \<in> {''specs'', ''roadmap'', ''ideation''} \<and>
   map_of initialized_disk ([''p''] @ [''.auto-claude'', ''ideation'']) = Some Dir \<and>
   map_of initialized_disk ([''p''] @ [''.auto-claude'', ''ideation'', ''.gitkeep'']) = Some (File [])"
proof -
  have s: "success \<lparr>success = True, error = None,
       InitializationResult.version = Some ''1.1.0'', wasUpdate = Some False\<rparr>" by simp
  have d: "''ideation'' \<in> {''specs'', ''roadmap'', ''ideation''}" by simp
  from initializeProject_data_directories [OF fresh_disk_initialize s d] fresh_disk_initialize s d
  show ?thesis by blast
qed

definition synced_disk :: fs where
  "synced_disk = [([], Dir), ([''s''], Dir), ([''s'', ''VERSION''], File ''1.1.0''),
     ([''s'', ''README.md''], File ''new''), ([''s'', ''roadmap''], Dir),
     ([''s'', ''.env.example''], File ''KEY=''), ([''p''], Dir),
     ([''p'', ''.auto-claude''], Dir),
     ([''p'', ''.auto-claude'', ''.env.example''], File ''KEY=''),
     ([''p'', ''.auto-claude'', ''README.md''], File ''new''),
     ([''p'', ''.auto-claude'', ''VERSION''], File ''1.1.0''),
     ([''p'', ''.auto-claude'', ''roadmap''], Dir)]"

text \<open>The source of \<open>fresh_disk\<close> ships a \<^verbatim>\<open>roadmap\<close> directory: the copy creates it in the
  installed folder without a marker, and the initialization still writes one into it.\<close>

theorem marker_in_synced_directory_counterexample:
  "copyDirectoryRecursive 3 [''s''] [''p'', ''.auto-claude''] False fresh_disk = Some (synced_disk, None) \<and>
   map_of synced_disk [''p'', ''.auto-claude'', ''roadmap''] = Some Dir \<and>
   map_of synced_disk [''p'', ''.auto-claude'', ''roadmap'', ''.gitkeep''] = None \<and>
   initializeProject 3 example_runtime ''t0'' [''p''] [''s''] fresh_disk =
     Some (initialized_disk, \<lparr>success = True, error = None,
       InitializationResult.version = Some ''1.1.0'', wasUpdate = Some False\<rparr>) \<and>
   map_of initialized_disk [''p'', ''.auto-claude'', ''roadmap'', ''.gitkeep''] = Some (File [])"
proof -
  have "copyDirectoryRecursive 3 [''s''] [''p'', ''.auto-claude''] False fresh_disk = Some (synced_disk, None)"
    by code_simp
  moreover have "map_of synced_disk [''p'', ''.auto-claude'', ''roadmap''] = Some Dir"
    "map_of synced_disk [''p'', ''.auto-claude'', ''roadmap'', ''.gitkeep''] = None"
    by (simp_all add: synced_disk_def)
  moreover have "map_of initialized_disk [''p'', ''.auto-claude'', ''roadmap'', ''.gitkeep''] = Some (File [])"
    by (simp add: initialized_disk_def)
  ultimately show ?thesis using fresh_disk_initialize by simp
qed

section \<open>Update (claims C2, C5, C6)\<close>

lemma refreshMetadata_frame:
  assumes "refreshMetadata rt now source target fs = (fs', x)"
  shows "q \<noteq> target @ [''.version.json''] \<Longrightarrow> map_of fs' q = map_of fs q"
  using assms
  by (auto simp add: refreshMetadata_def writeVersionMetadata_def Let_def
      dest!: map_of_writeFileSync split: sum.splits)

lemma refreshMetadata_keeps:
  assumes "refreshMetadata rt now source target fs = (fs', x)"
  shows "map_of fs q \<noteq> None \<Longrightarrow> map_of fs' q \<noteq> None"
  using assms
  by (auto simp add: refreshMetadata_def writeVersionMetadata_def Let_def
      dest!: map_of_writeFileSync split: sum.splits if_splits)

lemma refreshMetadata_done:
  assumes "refreshMetadata rt now source target fs = (fs', Inr v)"
  shows "\<exists>h. map_of fs' (target @ [''.version.json'']) =
      Some (File (json_stringify rt \<lparr>VersionMetadata.version = v, sourceHash = h,
        VersionMetadata.sourcePath = source,
        initializedAt = carriedInitializedAt (readVersionMetadata rt fs target) now,
        updatedAt = now\<rparr>))"
  using assms
  by (auto simp add: refreshMetadata_def writeVersionMetadata_def Let_def
      dest!: map_of_writeFileSync split: sum.splits)

lemma updateProject_returns:
  assumes "updateProject fuel rt now projectPath source fs = Some (fs', res)"
  obtains (refused) "fs' = fs"
  | (ran) fs1 r where "existsSync fs (projectPath @ [''.auto-claude''])"
      "copyDirectoryRecursive fuel source (projectPath @ [''.auto-claude'']) True fs = Some (fs1, r)"
      "\<And>q. q \<noteq> projectPath @ [''.auto-claude'', ''.version.json''] \<Longrightarrow> map_of fs' q = map_of fs1 q"
      "\<And>q. map_of fs1 q \<noteq> None \<Longrightarrow> map_of fs' q \<noteq> None"
proof (cases "existsSync fs source \<and> existsSync fs (projectPath @ [''.auto-claude''])")
  case False
  with assms have "fs' = fs" by (auto simp add: updateProject_def Let_def split: if_splits)
  then show ?thesis by (rule refused)
next
  case True
  with assms obtain fs1 r where
    cp: "copyDirectoryRecursive fuel source (projectPath @ [''.auto-claude'']) True fs = Some (fs1, r)"
    by (auto simp add: updateProject_def Let_def split: option.splits)
  show ?thesis
  proof (cases r)
    case (Some e)
    with assms True cp have "fs' = fs1" by (simp add: updateProject_def Let_def)
    with True cp show ?thesis by (auto intro: ran)
  next
    case None
    obtain fs2 x where rf: "refreshMetadata rt now source (projectPath @ [''.auto-claude'']) fs1 = (fs2, x)"
      by (cases "refreshMetadata rt now source (projectPath @ [''.auto-claude'']) fs1")
    with assms True cp None have "fs' = fs2"
      by (cases x) (simp_all add: updateProject_def Let_def)
    with refreshMetadata_frame [OF rf] refreshMetadata_keeps [OF rf] True cp show ?thesis
      by (auto intro: ran)
  qed
qed

lemma updateProject_success:
  assumes "updateProject fuel rt now projectPath source fs = Some (fs', res)" and "success res"
  obtains fs1 v where
    "existsSync fs source" "existsSync fs (projectPath @ [''.auto-claude''])"
    "copyDirectoryRecursive fuel source (projectPath @ [''.auto-claude'']) True fs = Some (fs1, None)"
    "refreshMetadata rt now source (projectPath @ [''.auto-claude'']) fs1 = (fs', Inr v)"
    "res = \<lparr>success = True, error = None, InitializationResult.version = Some v, wasUpdate = Some True\<rparr>"
  using assms
  by (auto simp add: updateProject_def Let_def failure_def
      split: if_splits option.splits prod.splits sum.splits)

text \<open>
  Claim C5: an entry of the installed folder whose name is preserved (\<^verbatim>\<open>specs\<close>, \<^verbatim>\<open>.env\<close>), at
  any depth, is after \<^verbatim>\<open>updateProject\<close> returns what it was before, with everything below
  it, whatever the source holds under that name.  (\<open>below = []\<close> is the entry itself.)
\<close>

theorem updateProject_preserves:
  assumes "updateProject fuel rt now projectPath source fs = Some (fs', res)"
    and "rel \<noteq> []" and "shouldPreserve (last rel)"
  shows "map_of fs' ((projectPath @ [''.auto-claude'']) @ rel @ below) =
         map_of fs ((projectPath @ [''.auto-claude'']) @ rel @ below)"
proof -
  let ?inst = "projectPath @ [''.auto-claude'']"
  let ?q = "?inst @ rel @ below"
  have ex: "shouldExclude (last rel)"
    using assms(3) by (rule shouldPreserve_imp_shouldExclude)
  have nw: "\<not> written ?inst fs0 ?q" for fs0
  proof
    assume "written ?inst fs0 ?q"
    then consider "prefix ?q ?inst" | rel' where "?q = ?inst @ rel'" "\<forall>c\<in>set rel'. \<not> shouldExclude c"
      by (auto simp add: written_def)
    then show False
    proof cases
      case 1
      then show ?thesis using assms(2) by (auto simp add: prefix_def)
    next
      case 2
      then have "rel' = rel @ below" by simp
      with 2(2) assms(2) ex show ?thesis by auto
    qed
  qed
  have side: "?q \<noteq> projectPath @ [''.auto-claude'', ''.version.json'']"
  proof
    assume "?q = projectPath @ [''.auto-claude'', ''.version.json'']"
    then have "rel @ below = [''.version.json'']" by simp
    with assms(2) have "rel = [''.version.json'']"
      by (cases rel) auto
    with assms(3) show False by (simp add: shouldPreserve_def PRESERVE_ON_UPDATE_def)
  qed
  from assms(1) show ?thesis
  proof (cases rule: updateProject_returns)
    case refused
    then show ?thesis by simp
  next
    case (ran fs1 r)
    from copy_footprint [OF ran(2), of ?q] nw have "map_of fs1 ?q = map_of fs ?q" by blast
    with ran(3) [OF side] show ?thesis by simp
  qed
qed

text \<open>
  Claim C2, as the code has it: whenever \<^verbatim>\<open>updateProject\<close> returns, with success or not,
  every path that was on the disk before is still there (nothing is deleted or pruned);
  when source and installed folder do not contain one another, a file of the installed
  folder at a relative path where the source has nothing, other than the sidecar
  \<^verbatim>\<open>.version.json\<close> of the installed folder, has the content it had; and the sidecar is
  written anew by every successful update: afterwards it holds metadata whose
  \<^verbatim>\<open>sourcePath\<close> is the source of the call and whose \<^verbatim>\<open>updatedAt\<close> is the time of the call.
\<close>

theorem updateProject_never_deletes:
  assumes "updateProject fuel rt now projectPath source fs = Some (fs', res)"
  shows "(map_of fs q \<noteq> None \<longrightarrow> map_of fs' q \<noteq> None) \<and>
    (\<not> prefix source (projectPath @ [''.auto-claude'']) \<and>
     \<not> prefix (projectPath @ [''.auto-claude'']) source \<and>
     map_of fs ((projectPath @ [''.auto-claude'']) @ rel) = Some (File c) \<and>
     map_of fs (source @ rel) = None \<and> rel \<noteq> [''.version.json''] \<longrightarrow>
     map_of fs' ((projectPath @ [''.auto-claude'']) @ rel) = Some (File c)) \<and>
    (success res \<longrightarrow>
     (\<exists>m. map_of fs' (projectPath @ [''.auto-claude'', ''.version.json'']) =
            Some (File (json_stringify rt m)) \<and>
          VersionMetadata.sourcePath m = source \<and> updatedAt m = now))"
proof (intro conjI impI)
  assume q: "map_of fs q \<noteq> None"
  from assms show "map_of fs' q \<noteq> None"
  proof (cases rule: updateProject_returns)
    case refused
    with q show ?thesis by simp
  next
    case (ran fs1 r)
    from ran(4) [OF copy_keeps [OF ran(2) q]] show ?thesis .
  qed
next
  let ?inst = "projectPath @ [''.auto-claude'']"
  assume a: "\<not> prefix source ?inst \<and> \<not> prefix ?inst source \<and>
     map_of fs (?inst @ rel) = Some (File c) \<and>
     map_of fs (source @ rel) = None \<and> rel \<noteq> [''.version.json'']"
  then have side: "?inst @ rel \<noteq> projectPath @ [''.auto-claude'', ''.version.json'']" by simp
  from assms show "map_of fs' (?inst @ rel) = Some (File c)"
  proof (cases rule: updateProject_returns)
    case refused
    with a show ?thesis by simp
  next
    case (ran fs1 r)
    have "map_of fs1 (?inst @ rel) = map_of fs (?inst @ rel)"
    proof (rule ccontr)
      assume "map_of fs1 (?inst @ rel) \<noteq> map_of fs (?inst @ rel)"
      from copy_overwrites [OF ran(2) _ _ _ this] a
      have "overwritten source ?inst fs (?inst @ rel)" by simp
      with a show False by (auto simp add: overwritten_def)
    qed
    with ran(3) [OF side] a show ?thesis by simp
  qed
next
  assume "success res"
  with assms obtain fs1 v where
    rf: "refreshMetadata rt now source (projectPath @ [''.auto-claude'']) fs1 = (fs', Inr v)"
    by (auto elim: updateProject_success)
  from refreshMetadata_done [OF rf] obtain h where
    "map_of fs' ((projectPath @ [''.auto-claude'']) @ [''.version.json'']) =
      Some (File (json_stringify rt \<lparr>VersionMetadata.version = v, sourceHash = h,
        VersionMetadata.sourcePath = source,
        initializedAt = carriedInitializedAt
          (readVersionMetadata rt fs1 (projectPath @ [''.auto-claude''])) now,
        updatedAt = now\<rparr>))" by blast
  then have "map_of fs' (projectPath @ [''.auto-claude'', ''.version.json'']) =
      Some (File (json_stringify rt \<lparr>VersionMetadata.version = v, sourceHash = h,
        VersionMetadata.sourcePath = source,
        initializedAt = carriedInitializedAt
          (readVersionMetadata rt fs1 (projectPath @ [''.auto-claude''])) now,
        updatedAt = now\<rparr>)) \<and>
    VersionMetadata.sourcePath \<lparr>VersionMetadata.version = v, sourceHash = h,
        VersionMetadata.sourcePath = source,
        initializedAt = carriedInitializedAt
          (readVersionMetadata rt fs1 (projectPath @ [''.auto-claude''])) now,
        updatedAt = now\<rparr> = source \<and>
    updatedAt \<lparr>VersionMetadata.version = v, sourceHash = h,
        VersionMetadata.sourcePath = source,
        initializedAt = carriedInitializedAt
          (readVersionMetadata rt fs1 (projectPath @ [''.auto-claude''])) now,
        updatedAt = now\<rparr> = now" by simp
  then show "\<exists>m. map_of fs' (projectPath @ [''.auto-claude'', ''.version.json'']) =
            Some (File (json_stringify rt m)) \<and>
          VersionMetadata.sourcePath m = source \<and> updatedAt m = now"
    by (rule exI)
qed

definition outdated_disk :: fs where
  "outdated_disk = [([], Dir), ([''s''], Dir), ([''s'', ''VERSION''], File ''1.1.0''),
     ([''s'', ''README.md''], File ''new''), ([''s'', ''.env''], File ''SECRET=bundle''),
     ([''p''], Dir), ([''p'', ''.auto-claude''], Dir),
     ([''p'', ''.auto-claude'', ''README.md''], File ''old''),
     ([''p'', ''.auto-claude'', ''.env''], File ''SECRET=mine''),
     ([''p'', ''.auto-claude'', ''notes.txt''], File ''keep me''),
     ([''p'', ''.auto-claude'', ''.version.json''], File ''1.0.0;abc123;/s;t0;t0'')]"

definition updated_disk :: fs where
  "updated_disk = [([], Dir), ([''s''], Dir), ([''s'', ''VERSION''], File ''1.1.0''),
     ([''s'', ''README.md''], File ''new''), ([''s'', ''.env''], File ''SECRET=bundle''),
     ([''p''], Dir), ([''p'', ''.auto-claude''], Dir),
     ([''p'', ''.auto-claude'', ''README.md''], File ''new''),
     ([''p'', ''.auto-claude'', ''.env''], File ''SECRET=mine''),
     ([''p'', ''.auto-claude'', ''notes.txt''], File ''keep me''),
     ([''p'', ''.auto-claude'', ''.version.json''], File ''1.1.0;file:README.md:3;/s;t0;t1''),
     ([''p'', ''.auto-claude'', ''VERSION''], File ''1.1.0'')]"

lemma outdated_disk_update:
  "updateProject 3 example_runtime ''t1'' [''p''] [''s''] outdated_disk =
     Some (updated_disk, \<lparr>success = True, error = None,
       InitializationResult.version = Some ''1.1.0'', wasUpdate = Some True\<rparr>)"
  by code_simp

theorem updateProject_preserves_witness:
  "updateProject 3 example_runtime ''t1'' [''p''] [''s''] outdated_disk =
     Some (updated_disk, \<lparr>success = True, error = None,
       InitializationResult.version = Some ''1.1.0'', wasUpdate = Some True\<rparr>) \<and>
   [''.env''] \<noteq> [] \<and> shouldPreserve (last [''.env'']) \<and>
   map_of outdated_disk ([''s''] @ [''.env'']) = Some (File ''SECRET=bundle'') \<and>
   map_of outdated_disk (([''p''] @ [''.auto-claude'']) @ [''.env''] @ []) = Some (File ''SECRET=mine'') \<and>
   map_of updated_disk (([''p''] @ [''.auto-claude'']) @ [''.env''] @ []) = Some (File ''SECRET=mine'')"
proof -
  have a: "[''.env''] \<noteq> []" by simp
  have b: "shouldPreserve (last [''.env''])"
    by (simp add: shouldPreserve_def PRESERVE_ON_UPDATE_def)
  have c: "map_of outdated_disk ([''s''] @ [''.env'']) = Some (File ''SECRET=bundle'')"
    "map_of outdated_disk (([''p''] @ [''.auto-claude'']) @ [''.env''] @ []) = Some (File ''SECRET=mine'')"
    by (simp_all add: outdated_disk_def)
  from updateProject_preserves [OF outdated_disk_update a b, of "[]"] c
  have "map_of updated_disk (([''p''] @ [''.auto-claude'']) @ [''.env''] @ []) = Some (File ''SECRET=mine'')"
    by simp
  with outdated_disk_update a b c show ?thesis by blast
qed

theorem updateProject_never_deletes_witness:
  "updateProject 3 example_runtime ''t1'' [''p''] [''s''] outdated_disk =
     Some (updated_disk, \<lparr>success = True, error = None,
       InitializationResult.version = Some ''1.1.0'', wasUpdate = Some True\<rparr>) \<and>
   map_of outdated_disk [''p'', ''.auto-claude'', ''.version.json''] \<noteq> None \<and>
   map_of updated_disk [''p'', ''.auto-claude'', ''.version.json''] \<noteq> None \<and>
   \<not> prefix [''s''] ([''p''] @ [''.auto-claude'']) \<and>
   \<not> prefix ([''p''] @ [''.auto-claude'']) [''s''] \<and>
   map_of outdated_disk (([''p''] @ [''.auto-claude'']) @ [''notes.txt'']) = Some (File ''keep me'') \<and>
   map_of outdated_disk ([''s''] @ [''notes.txt'']) = None \<and>
   [''notes.txt''] \<noteq> [''.version.json''] \<and>
   map_of updated_disk (([''p''] @ [''.auto-claude'']) @ [''notes.txt'']) = Some (File ''keep me'') \<and>
   success \<lparr>success = True, error = None,
       InitializationResult.version = Some ''1.1.0'', wasUpdate = Some True\<rparr> \<and>
   (\<exists>m. map_of updated_disk ([''p''] @ [''.auto-claude'', ''.version.json'']) =
          Some (File (json_stringify example_runtime m)) \<and>
        VersionMetadata.sourcePath m = [''s''] \<and> updatedAt m = ''t1'')"
proof -
  have a: "\<not> prefix [''s''] ([''p''] @ [''.auto-claude''])"
    and b: "\<not> prefix ([''p''] @ [''.auto-claude'']) [''s'']"
    by simp_all
  have c: "map_of outdated_disk (([''p''] @ [''.auto-claude'']) @ [''notes.txt'']) = Some (File ''keep me'')"
    and d: "map_of outdated_disk ([''s''] @ [''notes.txt'']) = None"
    and k: "map_of outdated_disk [''p'', ''.auto-claude'', ''.version.json''] \<noteq> None"
    by (simp_all add: outdated_disk_def)
  have e: "[''notes.txt''] \<noteq> [''.version.json'']" by simp
  have s: "success \<lparr>success = True, error = None,
       InitializationResult.version = Some ''1.1.0'', wasUpdate = Some True\<rparr>" by simp
  from updateProject_never_deletes [OF outdated_disk_update,
      of "[''p'', ''.auto-claude'', ''.version.json'']" "[''notes.txt'']" "''keep me''"]
    outdated_disk_update a b c d e k s
  show ?thesis by blast
qed

text \<open>The sidecar is a file of the installed folder that the source does not have, and a
  successful update writes it anew.\<close>

theorem updateProject_rewrites_sidecar_counterexample:
  "map_of outdated_disk [''p'', ''.auto-claude'', ''.version.json''] = Some (File ''1.0.0;abc123;/s;t0;t0'') \<and>
   map_of outdated_disk [''s'', ''.version.json''] = None \<and>
   updateProject 3 example_runtime ''t1'' [''p''] [''s''] outdated_disk =
     Some (updated_disk, \<lparr>success = True, error = None,
       InitializationResult.version = Some ''1.1.0'', wasUpdate = Some True\<rparr>) \<and>
   map_of updated_disk [''p'', ''.auto-claude'', ''.version.json''] = Some (File ''1.1.0;file:README.md:3;/s;t0;t1'') \<and>
   map_of updated_disk [''p'', ''.auto-claude'', ''.version.json''] \<noteq>
     map_of outdated_disk [''p'', ''.auto-claude'', ''.version.json'']"
  using outdated_disk_update by (simp add: outdated_disk_def updated_disk_def)

text \<open>
  The claim on contents needs source and installed folder to lie apart.  Below, the source
  is the folder \<^verbatim>\<open>src\<close> inside the installed folder, and it holds a folder of its own name.
  The copy of that inner folder lands in the source itself, where it creates
  \<^verbatim>\<open>tools/run.sh\<close>; the copy of \<^verbatim>\<open>tools\<close>, which comes later, then carries the new file over
  \<^verbatim>\<open>tools/run.sh\<close> of the installed folder: a path where the source had nothing when the
  update began.
\<close>

definition nested_disk :: fs where
  "nested_disk = [([], Dir), ([''p''], Dir), ([''p'', ''.auto-claude''], Dir),
     ([''p'', ''.auto-claude'', ''src''], Dir),
     ([''p'', ''.auto-claude'', ''src'', ''src''], Dir),
     ([''p'', ''.auto-claude'', ''src'', ''src'', ''tools''], Dir),
     ([''p'', ''.auto-claude'', ''src'', ''src'', ''tools'', ''run.sh''], File ''theirs''),
     ([''p'', ''.auto-claude'', ''src'', ''tools''], Dir),
     ([''p'', ''.auto-claude'', ''tools''], Dir),
     ([''p'', ''.auto-claude'', ''tools'', ''run.sh''], File ''mine'')]"

definition overrun_disk :: fs where
  "overrun_disk = [([], Dir), ([''p''], Dir), ([''p'', ''.auto-claude''], Dir),
     ([''p'', ''.auto-claude'', ''src''], Dir),
     ([''p'', ''.auto-claude'', ''src'', ''src''], Dir),
     ([''p'', ''.auto-claude'', ''src'', ''src'', ''tools''], Dir),
     ([''p'', ''.auto-claude'', ''src'', ''src'', ''tools'', ''run.sh''], File ''theirs''),
     ([''p'', ''.auto-claude'', ''src'', ''tools''], Dir),
     ([''p'', ''.auto-claude'', ''tools''], Dir),
     ([''p'', ''.auto-claude'', ''tools'', ''run.sh''], File ''theirs''),
     ([''p'', ''.auto-claude'', ''src'', ''tools'', ''run.sh''], File ''theirs''),
     ([''p'', ''.auto-claude'', ''.version.json''],
      File ''0.0.0;dir:srcdir:tools;/p/.auto-claude/src;t1;t1'')]"

theorem updateProject_nested_source_overwrites:
  "prefix ([''p''] @ [''.auto-claude'']) [''p'', ''.auto-claude'', ''src''] \<and>
   map_of nested_disk (([''p''] @ [''.auto-claude'']) @ [''tools'', ''run.sh'']) = Some (File ''mine'') \<and>
   map_of nested_disk ([''p'', ''.auto-claude'', ''src''] @ [''tools'', ''run.sh'']) = None \<and>
   [''tools'', ''run.sh''] \<noteq> [''.version.json''] \<and>
   updateProject 3 example_runtime ''t1'' [''p''] [''p'', ''.auto-claude'', ''src''] nested_disk =
     Some (overrun_disk, \<lparr>success = True, error = None,
       InitializationResult.version = Some ''0.0.0'', wasUpdate = Some True\<rparr>) \<and>
   map_of overrun_disk (([''p''] @ [''.auto-claude'']) @ [''tools'', ''run.sh'']) = Some (File ''theirs'')"
proof -
  have "updateProject 3 example_runtime ''t1'' [''p''] [''p'', ''.auto-claude'', ''src''] nested_disk =
     Some (overrun_disk, \<lparr>success = True, error = None,
       InitializationResult.version = Some ''0.0.0'', wasUpdate = Some True\<rparr>)"
    by code_simp
  then show ?thesis
    by (simp add: nested_disk_def overrun_disk_def)
qed

text \<open>
  The other way round, the installed folder lies inside the source \<^verbatim>\<open>p\<close>.  The copy of
  \<^verbatim>\<open>f\<close> creates \<^verbatim>\<open>f\<close> in the installed folder; the copy then comes down to the installed
  folder itself, now as a part of the source, and carries the new \<^verbatim>\<open>f\<close> over
  \<^verbatim>\<open>x/.auto-claude/f\<close> of the installed folder, where the source had nothing when the
  update began.  The next entry, a file whose destination is a directory, makes the update
  fail; what was overwritten stays.
\<close>

definition enclosing_disk :: fs where
  "enclosing_disk = [([], Dir), ([''p''], Dir), ([''p'', ''f''], File ''theirs''),
     ([''p'', ''x''], Dir), ([''p'', ''x'', ''.auto-claude''], Dir),
     ([''p'', ''x'', ''.auto-claude'', ''g''], File ''plain''),
     ([''p'', ''x'', ''.auto-claude'', ''x''], Dir),
     ([''p'', ''x'', ''.auto-claude'', ''x'', ''.auto-claude''], Dir),
     ([''p'', ''x'', ''.auto-claude'', ''x'', ''.auto-claude'', ''f''], File ''mine''),
     ([''p'', ''x'', ''.auto-claude'', ''x'', ''.auto-claude'', ''g''], Dir)]"

definition enclosing_failed_disk :: fs where
  "enclosing_failed_disk = [([], Dir), ([''p''], Dir), ([''p'', ''f''], File ''theirs''),
     ([''p'', ''x''], Dir), ([''p'', ''x'', ''.auto-claude''], Dir),
     ([''p'', ''x'', ''.auto-claude'', ''g''], File ''plain''),
     ([''p'', ''x'', ''.auto-claude'', ''x''], Dir),
     ([''p'', ''x'', ''.auto-claude'', ''x'', ''.auto-claude''], Dir),
     ([''p'', ''x'', ''.auto-claude'', ''x'', ''.auto-claude'', ''f''], File ''theirs''),
     ([''p'', ''x'', ''.auto-claude'', ''x'', ''.auto-claude'', ''g''], Dir),
     ([''p'', ''x'', ''.auto-claude'', ''f''], File ''theirs'')]"

theorem updateProject_enclosing_source_overwrites:
  "prefix [''p''] ([''p'', ''x''] @ [''.auto-claude'']) \<and>
   map_of enclosing_disk (([''p'', ''x''] @ [''.auto-claude'']) @ [''x'', ''.auto-claude'', ''f'']) =
     Some (File ''mine'') \<and>
   map_of enclosing_disk ([''p''] @ [''x'', ''.auto-claude'', ''f'']) = None \<and>
   [''x'', ''.auto-claude'', ''f''] \<noteq> [''.version.json''] \<and>
   updateProject 3 example_runtime ''t1'' [''p'', ''x''] [''p''] enclosing_disk =
     Some (enclosing_failed_disk, failure (Thrown EISDIR)) \<and>
   map_of enclosing_failed_disk (([''p'', ''x''] @ [''.auto-claude'']) @ [''x'', ''.auto-claude'', ''f'']) =
     Some (File ''theirs'')"
proof -
  have "updateProject 3 example_runtime ''t1'' [''p'', ''x''] [''p''] enclosing_disk =
     Some (enclosing_failed_disk, failure (Thrown EISDIR))"
    by code_simp
  then show ?thesis
    by (simp add: enclosing_disk_def enclosing_failed_disk_def)
qed

lemma copyEntries_top_level:
  "copyEntries n src dest u es fs = Some (fs', r) \<Longrightarrow> map_of fs (dest @ [x]) \<noteq> None \<Longrightarrow>
     x \<notin> name ` set es \<Longrightarrow> map_of fs' (dest @ [x]) = map_of fs (dest @ [x])"
proof (induction es arbitrary: fs)
  case Nil
  then show ?case by simp
next
  case (Cons entry entries)
  from Cons.prems(3) have ne: "name entry \<noteq> x" and rest: "x \<notin> name ` set entries" by auto
  have sub: "map_of fs1 (dest @ [x]) = map_of fs (dest @ [x])"
    if "copyDirectoryRecursive n (src @ [name entry]) (dest @ [name entry]) u fs = Some (fs1, r1)"
    for fs1 r1
  proof (rule ccontr)
    assume "map_of fs1 (dest @ [x]) \<noteq> map_of fs (dest @ [x])"
    from copy_footprint [OF that this] have "written (dest @ [name entry]) fs (dest @ [x])" by simp
    with Cons.prems(2) ne show False by (auto simp add: written_def)
  qed
  from Cons.prems(1) show ?case
  proof (cases rule: copyEntries_ConsE)
    case skip
    from Cons.IH [OF skip(2) Cons.prems(2) rest] show ?thesis .
  next
    case (dir_throws e)
    from sub [OF dir_throws(3)] show ?thesis .
  next
    case (dir_done fs1)
    from sub [OF dir_done(3)] Cons.prems(2) Cons.IH [OF dir_done(4) _ rest] show ?thesis by simp
  next
    case (file_throws e)
    then show ?thesis by simp
  next
    case (file_done fs1)
    from map_of_copyFileSync [OF file_done(3)] ne
    have "map_of fs1 (dest @ [x]) = map_of fs (dest @ [x])" by auto
    with Cons.prems(2) Cons.IH [OF file_done(4) _ rest] show ?thesis by simp
  qed
qed

lemma copy_top_level:
  assumes "copyDirectoryRecursive n src dest u fs = Some (fs', r)"
    and "existsSync fs dest" and "map_of fs (dest @ [x]) \<noteq> None" and "map_of fs (src @ [x]) = None"
  shows "map_of fs' (dest @ [x]) = map_of fs (dest @ [x])"
proof (cases n)
  case 0
  with assms(1) show ?thesis by simp
next
  case (Suc k)
  with assms(1) have "copyDirectoryRecursive (Suc k) src dest u fs = Some (fs', r)" by simp
  then show ?thesis
  proof (cases rule: copyDirectoryRecursive_SucE)
    case (mkdir_throws e)
    then show ?thesis by simp
  next
    case (readdir_throws fs1 e)
    with assms(2) show ?thesis by simp
  next
    case (entries fs1)
    with assms(2) have fs1: "fs1 = fs" by simp
    have "x \<notin> name ` set (children fs src)"
    proof
      assume "x \<in> name ` set (children fs src)"
      then obtain e where "e \<in> set (children fs src)" "x = name e" by blast
      with children_exist [of e fs src] assms(4) show False by simp
    qed
    from copyEntries_top_level [OF entries(3) [unfolded fs1] assms(3) this] show ?thesis .
  qed
qed

lemma readVersionMetadata_cong:
  "map_of fs1 (p @ [''.version.json'']) = map_of fs (p @ [''.version.json'']) \<Longrightarrow>
     readVersionMetadata rt fs1 p = readVersionMetadata rt fs p"
  by (simp add: readVersionMetadata_def existsSync_def readFileSync_def Let_def)

text \<open>
  Claim C6, as the code has it.  Every successful \<^verbatim>\<open>updateProject\<close> writes a sidecar whose
  \<^verbatim>\<open>updatedAt\<close> is the time of the call.  When the sidecar of the installed folder was
  readable before the call and the source has no entry \<^verbatim>\<open>.version.json\<close> at its top, the
  \<^verbatim>\<open>initializedAt\<close> that is written is the one that was read, unless that is the empty
  string: then it is the time of the call.  Every successful \<^verbatim>\<open>initializeProject\<close> writes
  a sidecar with both fields set to the time of the call.
\<close>

theorem initializedAt_carried:
  "(updateProject fuel rt now projectPath source fs = Some (fs', res) \<and> success res \<longrightarrow>
      (\<exists>m. map_of fs' (projectPath @ [''.auto-claude'', ''.version.json'']) = Some (File (json_stringify rt m)) \<and>
           updatedAt m = now \<and>
           (readVersionMetadata rt fs (projectPath @ [''.auto-claude'']) = Some m0 \<and>
            map_of fs (source @ [''.version.json'']) = None \<longrightarrow>
            initializedAt m = (if initializedAt m0 = [] then now else initializedAt m0)))) \<and>
   (initializeProject fuel rt now projectPath source fs = Some (fs', res) \<and> success res \<longrightarrow>
      (\<exists>m. map_of fs' (projectPath @ [''.auto-claude'', ''.version.json'']) = Some (File (json_stringify rt m)) \<and>
           initializedAt m = now \<and> updatedAt m = now))"
proof (intro conjI impI)
  let ?inst = "projectPath @ [''.auto-claude'']"
  assume a: "updateProject fuel rt now projectPath source fs = Some (fs', res) \<and> success res"
  then obtain fs1 v where ex: "existsSync fs ?inst"
    and cp: "copyDirectoryRecursive fuel source ?inst True fs = Some (fs1, None)"
    and rf: "refreshMetadata rt now source ?inst fs1 = (fs', Inr v)"
    by (auto elim: updateProject_success)
  from refreshMetadata_done [OF rf] obtain h where
    w: "map_of fs' (?inst @ [''.version.json'']) =
      Some (File (json_stringify rt \<lparr>VersionMetadata.version = v, sourceHash = h,
        VersionMetadata.sourcePath = source,
        initializedAt = carriedInitializedAt (readVersionMetadata rt fs1 ?inst) now,
        updatedAt = now\<rparr>))" by blast
  let ?m = "\<lparr>VersionMetadata.version = v, sourceHash = h,
        VersionMetadata.sourcePath = source,
        initializedAt = carriedInitializedAt (readVersionMetadata rt fs1 ?inst) now,
        updatedAt = now\<rparr>"
  have carried: "initializedAt ?m = (if initializedAt m0 = [] then now else initializedAt m0)"
    if b: "readVersionMetadata rt fs ?inst = Some m0 \<and> map_of fs (source @ [''.version.json'']) = None"
  proof -
    from b have side: "map_of fs (?inst @ [''.version.json'']) \<noteq> None"
      by (auto simp add: readVersionMetadata_def existsSync_def Let_def split: if_splits)
    from copy_top_level [OF cp ex side] b
    have "map_of fs1 (?inst @ [''.version.json'']) = map_of fs (?inst @ [''.version.json''])" by simp
    from readVersionMetadata_cong [OF this, of rt] b
    have "readVersionMetadata rt fs1 ?inst = Some m0" by simp
    then show ?thesis by (simp add: carriedInitializedAt_def)
  qed
  from w have "map_of fs' (projectPath @ [''.auto-claude'', ''.version.json'']) = Some (File (json_stringify rt ?m))"
    by simp
  moreover have "updatedAt ?m = now" by simp
  ultimately have "map_of fs' (projectPath @ [''.auto-claude'', ''.version.json'']) = Some (File (json_stringify rt ?m)) \<and>
           updatedAt ?m = now \<and>
           (readVersionMetadata rt fs (projectPath @ [''.auto-claude'']) = Some m0 \<and>
            map_of fs (source @ [''.version.json'']) = None \<longrightarrow>
            initializedAt ?m = (if initializedAt m0 = [] then now else initializedAt m0))"
    using carried by blast
  then show "\<exists>m. map_of fs' (projectPath @ [''.auto-claude'', ''.version.json'']) = Some (File (json_stringify rt m)) \<and>
           updatedAt m = now \<and>
           (readVersionMetadata rt fs (projectPath @ [''.auto-claude'']) = Some m0 \<and>
            map_of fs (source @ [''.version.json'']) = None \<longrightarrow>
            initializedAt m = (if initializedAt m0 = [] then now else initializedAt m0))"
    by (rule exI)
next
  assume "initializeProject fuel rt now projectPath source fs = Some (fs', res) \<and> success res"
  then obtain fs1 v where
    "scaffold rt now source (projectPath @ [''.auto-claude'']) fs1 = (fs', Inr v)"
    by (auto elim: initializeProject_success)
  from scaffold_done(1) [OF this]
  show "\<exists>m. map_of fs' (projectPath @ [''.auto-claude'', ''.version.json'']) = Some (File (json_stringify rt m)) \<and>
           initializedAt m = now \<and> updatedAt m = now"
    by auto
qed

lemma outdated_disk_metadata:
  "readVersionMetadata example_runtime outdated_disk ([''p''] @ [''.auto-claude'']) = Some installed_metadata"
  by (simp add: readVersionMetadata_def outdated_disk_def existsSync_def readFileSync_def
      example_runtime_def line_parse_def installed_metadata_def)

text \<open>An installed folder whose sidecar has the empty string as \<^verbatim>\<open>initializedAt\<close>, and the
  disk that an update at \<open>t1\<close> leaves.\<close>

definition blank_stamp_disk :: fs where
  "blank_stamp_disk = [([], Dir), ([''s''], Dir), ([''s'', ''VERSION''], File ''1.1.0''),
     ([''p''], Dir), ([''p'', ''.auto-claude''], Dir),
     ([''p'', ''.auto-claude'', ''.version.json''], File ''1.0.0;abc123;/s;;t0'')]"

definition restamped_disk :: fs where
  "restamped_disk = [([], Dir), ([''s''], Dir), ([''s'', ''VERSION''], File ''1.1.0''),
     ([''p''], Dir), ([''p'', ''.auto-claude''], Dir),
     ([''p'', ''.auto-claude'', ''.version.json''], File ''1.1.0;file:VERSION:51.;/s;t1;t1''),
     ([''p'', ''.auto-claude'', ''VERSION''], File ''1.1.0'')]"

definition blank_stamp_metadata :: VersionMetadata where
  "blank_stamp_metadata = \<lparr>VersionMetadata.version = ''1.0.0'', sourceHash = ''abc123'',
     VersionMetadata.sourcePath = [''s''], initializedAt = [], updatedAt = ''t0''\<rparr>"

lemma blank_stamp_disk_metadata:
  "readVersionMetadata example_runtime blank_stamp_disk ([''p''] @ [''.auto-claude'']) = Some blank_stamp_metadata"
  by (simp add: readVersionMetadata_def blank_stamp_disk_def existsSync_def readFileSync_def
      example_runtime_def line_parse_def blank_stamp_metadata_def)

lemma blank_stamp_disk_update:
  "updateProject 3 example_runtime ''t1'' [''p''] [''s''] blank_stamp_disk =
     Some (restamped_disk, \<lparr>success = True, error = None,
       InitializationResult.version = Some ''1.1.0'', wasUpdate = Some True\<rparr>)"
  by code_simp

theorem initializedAt_carried_witness:
  "updateProject 3 example_runtime ''t1'' [''p''] [''s''] outdated_disk =
     Some (updated_disk, \<lparr>success = True, error = None,
       InitializationResult.version = Some ''1.1.0'', wasUpdate = Some True\<rparr>) \<and>
   success \<lparr>success = True, error = None,
       InitializationResult.version = Some ''1.1.0'', wasUpdate = Some True\<rparr> \<and>
   readVersionMetadata example_runtime outdated_disk ([''p''] @ [''.auto-claude'']) = Some installed_metadata \<and>
   initializedAt installed_metadata = ''t0'' \<and>
   map_of outdated_disk ([''s''] @ [''.version.json'']) = None \<and>
   (\<exists>m. map_of updated_disk ([''p''] @ [''.auto-claude'', ''.version.json'']) =
          Some (File (json_stringify example_runtime m)) \<and>
        updatedAt m = ''t1'' \<and> initializedAt m = ''t0'') \<and>
   updateProject 3 example_runtime ''t1'' [''p''] [''s''] blank_stamp_disk =
     Some (restamped_disk, \<lparr>success = True, error = None,
       InitializationResult.version = Some ''1.1.0'', wasUpdate = Some True\<rparr>) \<and>
   readVersionMetadata example_runtime blank_stamp_disk ([''p''] @ [''.auto-claude'']) = Some blank_stamp_metadata \<and>
   initializedAt blank_stamp_metadata = [] \<and>
   map_of blank_stamp_disk ([''s''] @ [''.version.json'']) = None \<and>
   (\<exists>m. map_of restamped_disk ([''p''] @ [''.auto-claude'', ''.version.json'']) =
          Some (File (json_stringify example_runtime m)) \<and>
        updatedAt m = ''t1'' \<and> initializedAt m = ''t1'') \<and>
   initializeProject 3 example_runtime ''t0'' [''p''] [''s''] fresh_disk =
     Some (initialized_disk, \<lparr>success = True, error = None,
       InitializationResult.version = Some ''1.1.0'', wasUpdate = Some False\<rparr>) \<and>
   (\<exists>m. map_of initialized_disk ([''p''] @ [''.auto-claude'', ''.version.json'']) =
          Some (File (json_stringify example_runtime m)) \<and>
        initializedAt m = ''t0'' \<and> updatedAt m = ''t0'')"
proof -
  have s: "success \<lparr>success = True, error = None,
       InitializationResult.version = Some ''1.1.0'', wasUpdate = Some True\<rparr>" by simp
  have a: "initializedAt installed_metadata = ''t0''" by (simp add: installed_metadata_def)
  have b: "map_of outdated_disk ([''s''] @ [''.version.json'']) = None" by (simp add: outdated_disk_def)
  from initializedAt_carried [where fuel = 3 and rt = example_runtime and now = "''t1''"
      and projectPath = "[''p'']" and source = "[''s'']" and fs = outdated_disk and fs' = updated_disk
      and ?m0.0 = installed_metadata
      and res = "\<lparr>success = True, error = None,
       InitializationResult.version = Some ''1.1.0'', wasUpdate = Some True\<rparr>"]
    outdated_disk_update outdated_disk_metadata a b
  have c: "\<exists>m. map_of updated_disk ([''p''] @ [''.auto-claude'', ''.version.json'']) =
          Some (File (json_stringify example_runtime m)) \<and>
        updatedAt m = ''t1'' \<and> initializedAt m = ''t0''"
    by simp
  have a': "initializedAt blank_stamp_metadata = []" by (simp add: blank_stamp_metadata_def)
  have b': "map_of blank_stamp_disk ([''s''] @ [''.version.json'']) = None"
    by (simp add: blank_stamp_disk_def)
  from initializedAt_carried [where fuel = 3 and rt = example_runtime and now = "''t1''"
      and projectPath = "[''p'']" and source = "[''s'']" and fs = blank_stamp_disk and fs' = restamped_disk
      and ?m0.0 = blank_stamp_metadata
      and res = "\<lparr>success = True, error = None,
       InitializationResult.version = Some ''1.1.0'', wasUpdate = Some True\<rparr>"]
    blank_stamp_disk_update blank_stamp_disk_metadata a' b'
  have c': "\<exists>m. map_of restamped_disk ([''p''] @ [''.auto-claude'', ''.version.json'']) =
          Some (File (json_stringify example_runtime m)) \<and>
        updatedAt m = ''t1'' \<and> initializedAt m = ''t1''"
    by simp
  from initializedAt_carried [where fuel = 3 and rt = example_runtime and now = "''t0''"
      and projectPath = "[''p'']" and source = "[''s'']" and fs = fresh_disk and fs' = initialized_disk
      and res = "\<lparr>success = True, error = None,
       InitializationResult.version = Some ''1.1.0'', wasUpdate = Some False\<rparr>"]
    fresh_disk_initialize
  have d: "\<exists>m. map_of initialized_disk ([''p''] @ [''.auto-claude'', ''.version.json'']) =
          Some (File (json_stringify example_runtime m)) \<and>
        initializedAt m = ''t0'' \<and> updatedAt m = ''t0''"
    by simp
  from outdated_disk_update s outdated_disk_metadata a b c
    blank_stamp_disk_update blank_stamp_disk_metadata a' b' c' fresh_disk_initialize d
  show ?thesis by blast
qed

text \<open>
  The sidecar is not among the names that the copy leaves out.  A source that has a
  \<^verbatim>\<open>.version.json\<close> of its own at its top (a source that is itself an installed folder, or
  a bundle packed with its sidecar) has it copied over the sidecar of the installed folder
  before that one is read: the \<^verbatim>\<open>initializedAt\<close> that the update writes is then the one of
  the source, and the one of the installed folder is lost.
\<close>

definition shipped_disk :: fs where
  "shipped_disk = [([], Dir), ([''s''], Dir), ([''s'', ''VERSION''], File ''1.1.0''),
     ([''s'', ''.version.json''], File ''0.9.0;fff000;/dev;t9;t9''),
     ([''p''], Dir), ([''p'', ''.auto-claude''], Dir),
     ([''p'', ''.auto-claude'', ''.version.json''], File ''1.0.0;abc123;/s;t0;t0'')]"

definition reshipped_disk :: fs where
  "reshipped_disk = [([], Dir), ([''s''], Dir), ([''s'', ''VERSION''], File ''1.1.0''),
     ([''s'', ''.version.json''], File ''0.9.0;fff000;/dev;t9;t9''),
     ([''p''], Dir), ([''p'', ''.auto-claude''], Dir),
     ([''p'', ''.auto-claude'', ''.version.json''], File ''1.1.0;file:.version.js;/s;t9;t1''),
     ([''p'', ''.auto-claude'', ''VERSION''], File ''1.1.0'')]"

theorem shipped_sidecar_counterexample:
  "readVersionMetadata example_runtime shipped_disk [''p'', ''.auto-claude''] =
     Some \<lparr>VersionMetadata.version = ''1.0.0'', sourceHash = ''abc123'',
       VersionMetadata.sourcePath = [''s''], initializedAt = ''t0'', updatedAt = ''t0''\<rparr> \<and>
   updateProject 3 example_runtime ''t1'' [''p''] [''s''] shipped_disk =
     Some (reshipped_disk, \<lparr>success = True, error = None,
       InitializationResult.version = Some ''1.1.0'', wasUpdate = Some True\<rparr>) \<and>
   readVersionMetadata example_runtime reshipped_disk [''p'', ''.auto-claude''] =
     Some \<lparr>VersionMetadata.version = ''1.1.0'', sourceHash = ''file:.version.js'',
       VersionMetadata.sourcePath = [''s''], initializedAt = ''t9'', updatedAt = ''t1''\<rparr> \<and>
   ''t9'' \<noteq> ''t0''"
proof -
  have "updateProject 3 example_runtime ''t1'' [''p''] [''s''] shipped_disk =
     Some (reshipped_disk, \<lparr>success = True, error = None,
       InitializationResult.version = Some ''1.1.0'', wasUpdate = Some True\<rparr>)"
    by code_simp
  then show ?thesis
    by (simp add: readVersionMetadata_def shipped_disk_def reshipped_disk_def existsSync_def
        readFileSync_def example_runtime_def line_parse_def)
qed

section \<open>Retroactive metadata (claim C7)\<close>

text \<open>
  Claim C7: for an installed folder that exists and has no readable sidecar, and a source
  that exists, a call of \<^verbatim>\<open>checkVersion\<close> that returns has written a sidecar whose version
  is the version of the source and whose hash is the hash of the installed folder, and
  reports that version as the current one; when the platform reads that sidecar back as
  it was written, a second call returns the same current version and leaves the disk as
  the first call left it.
\<close>

theorem checkVersion_synthesizes_once:
  assumes "existsSync fs (projectPath @ [''.auto-claude''])"
    and "readVersionMetadata rt fs (projectPath @ [''.auto-claude'']) = None"
    and "existsSync fs source"
    and "checkVersion rt now projectPath source fs = (fs1, Inr res1)"
  shows "\<exists>v h. readSourceVersion fs source = Inr v \<and>
      calculateDirectoryHash rt fs (projectPath @ [''.auto-claude'']) = Inr h \<and>
      map_of fs1 (projectPath @ [''.auto-claude'', ''.version.json'']) =
        Some (File (json_stringify rt \<lparr>VersionMetadata.version = v, sourceHash = h,
          VersionMetadata.sourcePath = source, initializedAt = now, updatedAt = now\<rparr>)) \<and>
      currentVersion res1 = Some v \<and>
      (json_parse rt (json_stringify rt \<lparr>VersionMetadata.version = v, sourceHash = h,
          VersionMetadata.sourcePath = source, initializedAt = now, updatedAt = now\<rparr>) =
         Some \<lparr>VersionMetadata.version = v, sourceHash = h,
          VersionMetadata.sourcePath = source, initializedAt = now, updatedAt = now\<rparr> \<longrightarrow>
       (\<exists>res2. checkVersion rt now2 projectPath source fs1 = (fs1, Inr res2) \<and>
          currentVersion res2 = currentVersion res1))"
proof -
  let ?inst = "projectPath @ [''.auto-claude'']"
  from assms obtain m where
    syn: "retroactiveMetadata rt now ?inst source fs = (fs1, Inr m)"
    by (auto simp add: checkVersion_def Let_def split: prod.splits sum.splits if_splits)
  then obtain v h where v: "readSourceVersion fs source = Inr v"
    and h: "calculateDirectoryHash rt fs ?inst = Inr h"
    and m: "m = \<lparr>VersionMetadata.version = v, sourceHash = h,
          VersionMetadata.sourcePath = source, initializedAt = now, updatedAt = now\<rparr>"
    and wr: "writeFileSync fs (?inst @ [''.version.json'']) (json_stringify rt m) = Inr fs1"
    by (auto simp add: retroactiveMetadata_def writeVersionMetadata_def Let_def split: sum.splits)
  from map_of_writeFileSync [OF wr]
  have fs1: "map_of fs1 = (map_of fs)(?inst @ [''.version.json''] \<mapsto> File (json_stringify rt m))" .
  from fs1 assms(1,3) have ex1: "existsSync fs1 ?inst" "existsSync fs1 source"
    by (simp_all add: existsSync_def)
  from assms syn ex1 obtain v1 h1 where
    v1: "readSourceVersion fs1 source = Inr v1" and h1: "calculateDirectoryHash rt fs1 source = Inr h1"
    and r1: "currentVersion res1 = Some (VersionMetadata.version m)"
    by (auto simp add: checkVersion_def Let_def split: sum.splits)
  have second: "\<exists>res2. checkVersion rt now2 projectPath source fs1 = (fs1, Inr res2) \<and>
          currentVersion res2 = currentVersion res1"
    if "json_parse rt (json_stringify rt m) = Some m"
  proof -
    from fs1 that have "readVersionMetadata rt fs1 ?inst = Some m"
      by (simp add: readVersionMetadata_def existsSync_def readFileSync_def)
    with ex1 v1 h1 r1 show ?thesis
      by (simp add: checkVersion_def Let_def)
  qed
  from v h fs1 r1 second show ?thesis unfolding m by auto
qed

definition legacy_disk :: fs where
  "legacy_disk = [([], Dir), ([''s''], Dir), ([''s'', ''VERSION''], File ''1.1.0''),
     ([''s'', ''README.md''], File ''new''),
     ([''p''], Dir), ([''p'', ''.auto-claude''], Dir),
     ([''p'', ''.auto-claude'', ''README.md''], File ''old'')]"

definition tracked_disk :: fs where
  "tracked_disk = [([], Dir), ([''s''], Dir), ([''s'', ''VERSION''], File ''1.1.0''),
     ([''s'', ''README.md''], File ''new''),
     ([''p''], Dir), ([''p'', ''.auto-claude''], Dir),
     ([''p'', ''.auto-claude'', ''README.md''], File ''old''),
     ([''p'', ''.auto-claude'', ''.version.json''], File ''1.1.0;file:README.md:3;/s;t1;t1'')]"

lemma legacy_disk_check:
  "checkVersion example_runtime ''t1'' [''p''] [''s''] legacy_disk =
    (tracked_disk, Inr \<lparr>isInitialized = True, currentVersion = Some ''1.1.0'',
         sourceVersion = Some ''1.1.0'', updateAvailable = False,
         VersionCheckResult.sourcePath = Some [''p'', ''.auto-claude'']\<rparr>)"
  by code_simp

definition tracked_metadata :: VersionMetadata where
  "tracked_metadata = \<lparr>VersionMetadata.version = ''1.1.0'', sourceHash = ''file:README.md:3'',
     VersionMetadata.sourcePath = [''s''], initializedAt = ''t1'', updatedAt = ''t1''\<rparr>"

theorem checkVersion_synthesizes_once_witness:
  "existsSync legacy_disk ([''p''] @ [''.auto-claude'']) \<and>
   readVersionMetadata example_runtime legacy_disk ([''p''] @ [''.auto-claude'']) = None \<and>
   existsSync legacy_disk [''s''] \<and>
   checkVersion example_runtime ''t1'' [''p''] [''s''] legacy_disk =
    (tracked_disk, Inr \<lparr>isInitialized = True, currentVersion = Some ''1.1.0'',
         sourceVersion = Some ''1.1.0'', updateAvailable = False,
         VersionCheckResult.sourcePath = Some [''p'', ''.auto-claude'']\<rparr>) \<and>
   map_of tracked_disk ([''p''] @ [''.auto-claude'', ''.version.json'']) =
     Some (File (json_stringify example_runtime tracked_metadata)) \<and>
   json_parse example_runtime (json_stringify example_runtime tracked_metadata) = Some tracked_metadata \<and>
   (\<exists>res2. checkVersion example_runtime ''t2'' [''p''] [''s''] tracked_disk = (tracked_disk, Inr res2) \<and>
      currentVersion res2 = Some ''1.1.0'')"
proof -
  have a: "existsSync legacy_disk ([''p''] @ [''.auto-claude''])"
    and c: "existsSync legacy_disk [''s'']"
    by (simp_all add: legacy_disk_def existsSync_def)
  have b: "readVersionMetadata example_runtime legacy_disk ([''p''] @ [''.auto-claude'']) = None"
    by (simp add: readVersionMetadata_def legacy_disk_def existsSync_def)
  have v: "readSourceVersion legacy_disk [''s''] = Inr ''1.1.0''"
    by code_simp
  have h: "calculateDirectoryHash example_runtime legacy_disk ([''p''] @ [''.auto-claude'']) = Inr ''file:README.md:3''"
    by code_simp
  have rt: "json_parse example_runtime (json_stringify example_runtime tracked_metadata) = Some tracked_metadata"
    by (simp add: example_runtime_def line_parse_def line_stringify_def tracked_metadata_def)
  have side: "map_of tracked_disk ([''p''] @ [''.auto-claude'', ''.version.json'']) =
     Some (File (json_stringify example_runtime tracked_metadata))"
    by (simp add: tracked_disk_def example_runtime_def line_stringify_def tracked_metadata_def)
  from checkVersion_synthesizes_once [OF a b c legacy_disk_check, of "''t2''"] v h rt
  have "\<exists>res2. checkVersion example_runtime ''t2'' [''p''] [''s''] tracked_disk = (tracked_disk, Inr res2) \<and>
      currentVersion res2 = Some ''1.1.0''"
    by (auto simp add: tracked_metadata_def)
  with a b c legacy_disk_check side rt show ?thesis by blast
qed

section \<open>Order of the disk and the fingerprint (claim C4)\<close>











end
